theory Spec2Isabelle
  imports Complex_Main
begin

section \<open>JavaScript numbers\<close>

text \<open>
  A JavaScript \<^verbatim>\<open>number\<close> is modelled as an exact real or one of the three special values
  of IEEE 754. The special values follow the IEEE rules (every comparison with NaN is false,
  \<open>0 * \<infinity>\<close> is NaN, and so on). Finite values are exact reals: rounding, overflow of a
  finite computation and the sign of zero are not modelled, so the decimal literals of the
  source (0.9, 0.001, 0.05, ...) stand for the rationals they denote.
\<close>

datatype jsnum = Fin real | PInf | NInf | NaN

fun js_neg :: "jsnum \<Rightarrow> jsnum" where
  "js_neg (Fin a) = Fin (- a)"
| "js_neg PInf = NInf"
| "js_neg NInf = PInf"
| "js_neg NaN = NaN"

fun js_add :: "jsnum \<Rightarrow> jsnum \<Rightarrow> jsnum" where
  "js_add NaN _ = NaN"
| "js_add _ NaN = NaN"
| "js_add (Fin a) (Fin b) = Fin (a + b)"
| "js_add (Fin a) PInf = PInf"
| "js_add (Fin a) NInf = NInf"
| "js_add PInf (Fin b) = PInf"
| "js_add NInf (Fin b) = NInf"
| "js_add PInf PInf = PInf"
| "js_add NInf NInf = NInf"
| "js_add PInf NInf = NaN"
| "js_add NInf PInf = NaN"

definition js_sub :: "jsnum \<Rightarrow> jsnum \<Rightarrow> jsnum" where
  "js_sub a b = js_add a (js_neg b)"

text \<open>The sign of an infinite product or quotient, from the sign of the finite operand.\<close>

definition inf_signed :: "bool \<Rightarrow> jsnum" where
  "inf_signed positive = (if positive then PInf else NInf)"

fun js_mul :: "jsnum \<Rightarrow> jsnum \<Rightarrow> jsnum" where
  "js_mul NaN _ = NaN"
| "js_mul _ NaN = NaN"
| "js_mul (Fin a) (Fin b) = Fin (a * b)"
| "js_mul (Fin a) PInf = (if a = 0 then NaN else inf_signed (0 < a))"
| "js_mul (Fin a) NInf = (if a = 0 then NaN else inf_signed (a < 0))"
| "js_mul PInf (Fin b) = (if b = 0 then NaN else inf_signed (0 < b))"
| "js_mul NInf (Fin b) = (if b = 0 then NaN else inf_signed (b < 0))"
| "js_mul PInf PInf = PInf"
| "js_mul NInf NInf = PInf"
| "js_mul PInf NInf = NInf"
| "js_mul NInf PInf = NInf"

text \<open>Division; a zero divisor is taken as \<open>+0\<close>.\<close>

fun js_div :: "jsnum \<Rightarrow> jsnum \<Rightarrow> jsnum" where
  "js_div NaN _ = NaN"
| "js_div _ NaN = NaN"
| "js_div (Fin a) (Fin b) =
     (if b = 0 then (if a = 0 then NaN else inf_signed (0 < a)) else Fin (a / b))"
| "js_div (Fin a) PInf = Fin 0"
| "js_div (Fin a) NInf = Fin 0"
| "js_div PInf (Fin b) = inf_signed (0 \<le> b)"
| "js_div NInf (Fin b) = inf_signed (b < 0)"
| "js_div PInf PInf = NaN"
| "js_div NInf NInf = NaN"
| "js_div PInf NInf = NaN"
| "js_div NInf PInf = NaN"

text \<open>The comparisons \<^verbatim>\<open><\<close> and \<^verbatim>\<open><=\<close>: false as soon as one side is NaN.\<close>

fun js_lt :: "jsnum \<Rightarrow> jsnum \<Rightarrow> bool" where
  "js_lt NaN _ = False"
| "js_lt _ NaN = False"
| "js_lt (Fin a) (Fin b) = (a < b)"
| "js_lt (Fin a) PInf = True"
| "js_lt (Fin a) NInf = False"
| "js_lt PInf _ = False"
| "js_lt NInf (Fin b) = True"
| "js_lt NInf PInf = True"
| "js_lt NInf NInf = False"

fun js_le :: "jsnum \<Rightarrow> jsnum \<Rightarrow> bool" where
  "js_le NaN _ = False"
| "js_le _ NaN = False"
| "js_le (Fin a) (Fin b) = (a \<le> b)"
| "js_le (Fin a) PInf = True"
| "js_le (Fin a) NInf = False"
| "js_le PInf (Fin b) = False"
| "js_le PInf PInf = True"
| "js_le PInf NInf = False"
| "js_le NInf _ = True"

text \<open>\<^verbatim>\<open>Math.max\<close> and \<^verbatim>\<open>Math.min\<close> of two arguments: NaN as soon as one argument is NaN.\<close>

fun js_max :: "jsnum \<Rightarrow> jsnum \<Rightarrow> jsnum" where
  "js_max NaN _ = NaN"
| "js_max _ NaN = NaN"
| "js_max a b = (if js_lt a b then b else a)"

fun js_min :: "jsnum \<Rightarrow> jsnum \<Rightarrow> jsnum" where
  "js_min NaN _ = NaN"
| "js_min _ NaN = NaN"
| "js_min a b = (if js_lt b a then b else a)"

text \<open>\<^verbatim>\<open>Number.isFinite\<close>, and the truthiness of a number (\<open>0\<close> and NaN are falsy).\<close>

fun isFinite :: "jsnum \<Rightarrow> bool" where
  "isFinite (Fin a) = True"
| "isFinite _ = False"

fun truthy :: "jsnum \<Rightarrow> bool" where
  "truthy (Fin a) = (a \<noteq> 0)"
| "truthy NaN = False"
| "truthy _ = True"

section \<open>The scene model (types.ts, constants.ts)\<close>

datatype WaveformType = Sine | Square | Sawtooth | Triangle

datatype GatingMode = GatingNone | Fractal

text \<open>
  \<open>fractalPattern\<close> is an option: the trigger tests the field for presence before it reads
  its length, so an absent pattern is a value of the model.
\<close>

record HarmonicLayer =
  layer_id :: string
  label :: string
  ratio :: jsnum
  waveform :: WaveformType
  gain :: jsnum
  gatingMode :: GatingMode
  fractalPattern :: "jsnum list option"

record StepSettings =
  enabled :: bool
  baseFrequency :: jsnum
  stepGain :: jsnum
  phaseOffsets :: "string \<rightharpoonup> jsnum"

record SceneMeta =
  meta_name :: string
  description :: string
  source :: string

record OrpheusState =
  harmonicLayers :: "HarmonicLayer list"
  steps :: "StepSettings list"
  tempo :: jsnum
  masterGain :: jsnum
  globalSchumannDepth :: jsnum
  sceneMeta :: SceneMeta

definition NUM_STEPS :: nat where
  "NUM_STEPS = 16"

definition F_ROOT :: real where
  "F_ROOT = 16"

definition DIATONIC_RATIOS :: "real list" where
  "DIATONIC_RATIOS = [1, 9 / 8, 5 / 4, 4 / 3, 3 / 2, 5 / 3, 15 / 8, 2]"

section \<open>The engine (class AudioService)\<close>

datatype AudioContextState = Suspended | Running | Closed

text \<open>
  A task handed to \<^verbatim>\<open>setTimeout\<close>: the re-armed scheduler tick, or the deferred step
  notification of \<open>scheduleNote\<close>, which carries the step number it closed over.
\<close>

datatype timer_task = Tick | StepNotify nat

text \<open>
  A call of \<open>start\<close> that is suspended at one of its two \<^verbatim>\<open>await\<close>s, with the callback
  it was given: after \<^verbatim>\<open>await this.initialize()\<close>, or after \<^verbatim>\<open>await this.ctx.resume()\<close>.
\<close>

datatype continuation = AfterInitialize "nat option" | AfterResume "nat option"

record timer =
  timer_id :: nat
  timer_delay :: jsnum
  timer_task :: timer_task

text \<open>
  One voice of the audio graph: the oscillator and gain node that \<open>scheduleNote\<close> creates
  for a layer, with the values it writes into them.
\<close>

record voice =
  osc :: nat
  osc_type :: WaveformType
  osc_frequency :: jsnum
  layerStartTime :: jsnum
  peakGain :: jsnum
  attackEnd :: jsnum
  decayEnd :: jsnum
  stopTime :: jsnum

text \<open>
  The fields of the class, followed by the part of the environment the class acts on: the
  pending timers of the window (\<open>timers\<close>, with \<open>timerSeq\<close> the number of identifiers handed
  out so far), the calls of \<open>start\<close> that are suspended at an \<^verbatim>\<open>await\<close> (\<open>awaiting\<close>),
  the voices created in the audio graph (\<open>voices\<close>), the oscillators stopped by
  force (\<open>stoppedOscs\<close>), the calls made to the registered step callback (\<open>cbCalls\<close>, the
  callback and its argument) and the history of the calls of \<open>scheduleNote\<close> (\<open>noteCalls\<close>,
  step number and time). The histories are only written, never read, by the operations.
  A node field holds \<open>None\<close> for \<^verbatim>\<open>null\<close> and the node's gain value otherwise; a callback is
  named by a number.
\<close>

record AudioService =
  ctx :: "AudioContextState option"
  masterGainNode :: "jsnum option"
  schumannGainNode :: "jsnum option"
  activeOscillators :: "nat set"
  isPlaying :: bool
  stepCallback :: "nat option"
  nextNoteTime :: jsnum
  currentStep :: nat
  timerID :: "nat option"
  state :: OrpheusState
  timers :: "timer list"
  timerSeq :: nat
  awaiting :: "continuation list"
  voices :: "voice list"
  stoppedOscs :: "nat set"
  cbCalls :: "(nat \<times> nat) list"
  noteCalls :: "(nat \<times> jsnum) list"

definition lookahead :: jsnum where
  "lookahead = Fin 25"

definition scheduleAheadTime :: jsnum where
  "scheduleAheadTime = Fin (1 / 10)"

subsection \<open>getInitialState and the constructor\<close>

text \<open>The labels of the layers are written without their subscripts.\<close>

definition initialLayers :: "HarmonicLayer list" where
  "initialLayers =
    [\<lparr>layer_id = ''root'', label = ''C0 Root'', ratio = Fin 1, waveform = Sine,
       gain = Fin 1, gatingMode = GatingNone, fractalPattern = Some [Fin 1]\<rparr>,
     \<lparr>layer_id = ''fifth'', label = ''H1 Fifth'', ratio = Fin (3 / 2), waveform = Square,
       gain = Fin (6 / 10), gatingMode = Fractal,
       fractalPattern = Some [Fin 1, Fin (1 / 2), Fin (1 / 4), Fin (1 / 8)]\<rparr>,
     \<lparr>layer_id = ''octave'', label = ''H2 Octave'', ratio = Fin 2, waveform = Triangle,
       gain = Fin (4 / 10), gatingMode = Fractal,
       fractalPattern = Some [Fin 1, Fin (1 / 2), Fin (1 / 4), Fin (1 / 8)]\<rparr>]"

definition initialStep :: "nat \<Rightarrow> StepSettings" where
  "initialStep i =
    (let octave = (if i < 8 then 1 else 2);
         ratio = DIATONIC_RATIOS ! (i mod 8);
         freq = F_ROOT * ratio * octave
     in \<lparr>enabled = True, baseFrequency = Fin freq, stepGain = Fin (4 / 10),
         phaseOffsets = map_of (map (\<lambda>l. (layer_id l, Fin 0)) initialLayers)\<rparr>)"

definition getInitialState :: OrpheusState where
  "getInitialState =
    \<lparr>harmonicLayers = initialLayers,
     steps = map initialStep [0..<NUM_STEPS],
     tempo = Fin 120,
     masterGain = Fin (1 / 2),
     globalSchumannDepth = Fin (4 / 10),
     sceneMeta = \<lparr>meta_name = ''Untitled Scene'', description = ''Custom pattern'',
                  source = ''Custom''\<rparr>\<rparr>"

definition new_AudioService :: AudioService where
  "new_AudioService =
    \<lparr>ctx = None, masterGainNode = None, schumannGainNode = None, activeOscillators = {},
     isPlaying = False, stepCallback = None, nextNoteTime = Fin 0, currentStep = 0,
     timerID = None, state = getInitialState, timers = [], timerSeq = 0,
     awaiting = [], voices = [],
     stoppedOscs = {}, cbCalls = [], noteCalls = []\<rparr>"

subsection \<open>Timers of the window\<close>

text \<open>
  \<^verbatim>\<open>setTimeout\<close> hands out the next positive identifier and queues the task;
  \<^verbatim>\<open>clearTimeout\<close> removes the task with that identifier, if it is still pending.
\<close>

definition setTimeout :: "timer_task \<Rightarrow> jsnum \<Rightarrow> AudioService \<Rightarrow> nat \<times> AudioService" where
  "setTimeout task delay s =
    (let i = Suc (timerSeq s)
     in (i, s\<lparr>timers := timers s @ [\<lparr>timer_id = i, timer_delay = delay, timer_task = task\<rparr>],
              timerSeq := i\<rparr>))"

definition clearTimeout :: "nat \<Rightarrow> AudioService \<Rightarrow> AudioService" where
  "clearTimeout i s = s\<lparr>timers := filter (\<lambda>t. timer_id t \<noteq> i) (timers s)\<rparr>"

subsection \<open>initialize, applyGlobalSettings, setState\<close>

definition applyGlobalSettings :: "AudioService \<Rightarrow> AudioService" where
  "applyGlobalSettings s =
    (if ctx s = None \<or> masterGainNode s = None \<or> schumannGainNode s = None then s
     else s\<lparr>masterGainNode := Some (masterGain (state s))\<rparr>)"

text \<open>The state in which the platform hands out a new audio context is a parameter.\<close>

definition initialize :: "AudioContextState \<Rightarrow> AudioService \<Rightarrow> AudioService" where
  "initialize c0 s =
    (if ctx s \<noteq> None then s
     else applyGlobalSettings
            (s\<lparr>ctx := Some c0, masterGainNode := Some (masterGain (state s)),
               schumannGainNode := Some (Fin 1)\<rparr>))"

definition setState :: "OrpheusState \<Rightarrow> AudioService \<Rightarrow> AudioService" where
  "setState newState s = applyGlobalSettings (s\<lparr>state := newState\<rparr>)"

subsection \<open>stop and stopAllVoices\<close>

definition stopAllVoices :: "AudioService \<Rightarrow> AudioService" where
  "stopAllVoices s =
    s\<lparr>stoppedOscs := stoppedOscs s \<union> activeOscillators s, activeOscillators := {}\<rparr>"

text \<open>\<^verbatim>\<open>if (this.timerID)\<close> is false for \<^verbatim>\<open>undefined\<close> and for the number 0.\<close>

definition stop :: "AudioService \<Rightarrow> AudioService" where
  "stop s =
    (let s1 = s\<lparr>isPlaying := False\<rparr>;
         s2 = (case timerID s1 of
                 None \<Rightarrow> s1
               | Some i \<Rightarrow> if i \<noteq> 0 then clearTimeout i s1 else s1)
     in stopAllVoices s2)"

subsection \<open>scheduleNote\<close>

definition stepDurationSec :: "OrpheusState \<Rightarrow> jsnum" where
  "stepDurationSec st = js_div (js_div (Fin 60) (tempo st)) (Fin 4)"

text \<open>Reading an array at an index: \<^verbatim>\<open>undefined\<close> beyond its length.\<close>

definition array_at :: "'a list \<Rightarrow> nat \<Rightarrow> 'a option" where
  "array_at xs i = (if i < length xs then Some (xs ! i) else None)"

text \<open>The gating multiplier of a layer at a step (the first part of the loop body).\<close>

definition gating :: "HarmonicLayer \<Rightarrow> nat \<Rightarrow> jsnum" where
  "gating layer stepNumber =
    (if gatingMode layer = Fractal then
       (let pattern = (case fractalPattern layer of
                         None \<Rightarrow> [Fin 1]
                       | Some p \<Rightarrow> if length p > 0 then p else [Fin 1]);
            g = pattern ! (stepNumber mod length pattern)
        in if \<not> isFinite g \<or> js_lt g (Fin 0) then Fin 0 else g)
     else Fin 1)"

definition phaseFrac :: "StepSettings \<Rightarrow> HarmonicLayer \<Rightarrow> jsnum" where
  "phaseFrac step layer =
    (case phaseOffsets step (layer_id layer) of
       None \<Rightarrow> Fin 0
     | Some f \<Rightarrow> if truthy f then f else Fin 0)"

definition offsetSec :: "StepSettings \<Rightarrow> HarmonicLayer \<Rightarrow> jsnum \<Rightarrow> jsnum" where
  "offsetSec step layer stepDur =
    js_mul (js_max (Fin 0) (js_min (Fin (9 / 10)) (phaseFrac step layer))) stepDur"

definition attack :: jsnum where
  "attack = Fin (1 / 100)"

text \<open>The peak gain of a layer's voice at a step.\<close>

definition peakGainOf :: "StepSettings \<Rightarrow> HarmonicLayer \<Rightarrow> nat \<Rightarrow> jsnum" where
  "peakGainOf step layer stepNumber =
    js_mul (js_mul (stepGain step) (gain layer)) (gating layer stepNumber)"

text \<open>The oscillator and envelope that the loop body sets up, as oscillator \<open>oid\<close>.\<close>

definition makeVoice ::
  "StepSettings \<Rightarrow> HarmonicLayer \<Rightarrow> nat \<Rightarrow> jsnum \<Rightarrow> jsnum \<Rightarrow> nat \<Rightarrow> voice" where
  "makeVoice step layer stepNumber time stepDur oid =
    (let decay = js_mul stepDur (Fin (8 / 10));
         start = js_add time (offsetSec step layer stepDur)
     in \<lparr>osc = oid, osc_type = waveform layer,
         osc_frequency = js_mul (baseFrequency step) (ratio layer),
         layerStartTime = start, peakGain = peakGainOf step layer stepNumber,
         attackEnd = js_add start attack,
         decayEnd = js_add (js_add start attack) decay,
         stopTime = js_add (js_add (js_add start attack) decay) (Fin (1 / 10))\<rparr>)"

text \<open>The body of the loop over the layers, for one layer.\<close>

definition triggerLayer ::
  "StepSettings \<Rightarrow> nat \<Rightarrow> jsnum \<Rightarrow> jsnum \<Rightarrow> AudioService \<Rightarrow> HarmonicLayer \<Rightarrow> AudioService" where
  "triggerLayer step stepNumber time stepDur s layer =
    (if js_le (gain layer) (Fin 0) then s
     else if js_le (peakGainOf step layer stepNumber) (Fin (1 / 1000)) then s
     else
       let oid = length (voices s)
       in s\<lparr>voices := voices s @ [makeVoice step layer stepNumber time stepDur oid],
            activeOscillators := insert oid (activeOscillators s)\<rparr>)"

text \<open>
  The step notification of \<open>scheduleNote\<close>: with a callback registered, a timer for the
  time left until the step starts.
\<close>

definition queueNotify :: "nat \<Rightarrow> jsnum \<Rightarrow> jsnum \<Rightarrow> AudioService \<Rightarrow> AudioService" where
  "queueNotify stepNumber time now s =
    (case stepCallback s of
       None \<Rightarrow> s
     | Some cb \<Rightarrow>
         (let delay = js_mul (js_sub time now) (Fin 1000)
          in snd (setTimeout (StepNotify stepNumber) (js_max (Fin 0) delay) s)))"

text \<open>
  \<open>scheduleNote\<close> at audio-clock time \<open>now\<close>. The first line of the model records the call;
  the rest follows the method.
\<close>

definition scheduleNote :: "nat \<Rightarrow> jsnum \<Rightarrow> jsnum \<Rightarrow> AudioService \<Rightarrow> AudioService" where
  "scheduleNote stepNumber time now s0 =
    (let s = s0\<lparr>noteCalls := noteCalls s0 @ [(stepNumber, time)]\<rparr>
     in if ctx s = None \<or> schumannGainNode s = None then s
        else
          let s1 = queueNotify stepNumber time now s
          in case array_at (steps (state s1)) stepNumber of
               None \<Rightarrow> s1
             | Some step \<Rightarrow>
                 if \<not> enabled step \<or> js_le (stepGain step) (Fin 0) then s1
                 else foldl (triggerLayer step stepNumber time (stepDurationSec (state s1)))
                        s1 (harmonicLayers (state s1)))"

text \<open>The deferred notification, when its timer fires.\<close>

definition notifyStep :: "nat \<Rightarrow> AudioService \<Rightarrow> AudioService" where
  "notifyStep stepNumber s =
    (case stepCallback s of
       None \<Rightarrow> s
     | Some cb \<Rightarrow> s\<lparr>cbCalls := cbCalls s @ [(cb, stepNumber)]\<rparr>)"

text \<open>The \<^verbatim>\<open>onended\<close> handler of an oscillator.\<close>

definition onended :: "nat \<Rightarrow> AudioService \<Rightarrow> AudioService" where
  "onended oid s = s\<lparr>activeOscillators := activeOscillators s - {oid}\<rparr>"

subsection \<open>scheduler\<close>

text \<open>
  The scheduler runs as one task, during which the audio clock reads the same \<open>now\<close>.
  The increment of the cursor and its reset at \<open>NUM_STEPS\<close> are one step of the model:
  nothing reads the cursor between the two statements.
\<close>

definition advanceTime :: "jsnum \<Rightarrow> AudioService \<Rightarrow> AudioService" where
  "advanceTime stepDur s = s\<lparr>nextNoteTime := js_add (nextNoteTime s) stepDur\<rparr>"

definition advanceStep :: "AudioService \<Rightarrow> AudioService" where
  "advanceStep s =
    (let c = currentStep s + 1
     in s\<lparr>currentStep := (if c = NUM_STEPS then 0 else c)\<rparr>)"

text \<open>One iteration of the drain loop: the three statements of its body, in order.\<close>

definition loopBody :: "jsnum \<Rightarrow> jsnum \<Rightarrow> AudioService \<Rightarrow> AudioService" where
  "loopBody now stepDur s =
    advanceStep (advanceTime stepDur (scheduleNote (currentStep s) (nextNoteTime s) now s))"

text \<open>
  The drain loop may run forever (a step duration that is zero or negative never reaches
  the end of the window), so it runs on fuel: \<open>None\<close> when the fuel is used up.
\<close>

fun drain :: "nat \<Rightarrow> jsnum \<Rightarrow> jsnum \<Rightarrow> AudioService \<Rightarrow> AudioService option" where
  "drain 0 now stepDur s = None"
| "drain (Suc n) now stepDur s =
    (if js_lt (nextNoteTime s) (js_add now scheduleAheadTime)
     then drain n now stepDur (loopBody now stepDur s)
     else Some s)"

definition rearm :: "AudioService \<Rightarrow> AudioService" where
  "rearm s =
    (if isPlaying s
     then (let (i, s') = setTimeout Tick lookahead s in s'\<lparr>timerID := Some i\<rparr>)
     else s)"

definition scheduler :: "nat \<Rightarrow> jsnum \<Rightarrow> AudioService \<Rightarrow> AudioService option" where
  "scheduler fuel now s =
    (if ctx s = None then Some s
     else map_option rearm (drain fuel now (stepDurationSec (state s)) s))"

subsection \<open>start\<close>

text \<open>
  \<open>start\<close> is an asynchronous method with two \<^verbatim>\<open>await\<close>s. A call runs up to the first
  \<^verbatim>\<open>await\<close> it meets and is suspended there; whatever else happens to the engine may happen
  before it goes on. \<open>initialize\<close> has no \<^verbatim>\<open>await\<close> of its own, so it runs to its end
  when it is called.

  \<open>startPlay\<close> is the end of the method, after the second \<^verbatim>\<open>await\<close>; \<open>startCheck\<close> is the
  part from the test of \<open>isPlaying\<close> on; \<open>start\<close> is the call; \<open>continueStart\<close> lets the
  suspended call number \<open>k\<close> go on. When the promise of \<^verbatim>\<open>resume\<close> is fulfilled the context
  is running.
\<close>

definition suspend :: "continuation \<Rightarrow> AudioService \<Rightarrow> AudioService" where
  "suspend c s = s\<lparr>awaiting := awaiting s @ [c]\<rparr>"

definition beginPlayback :: "nat option \<Rightarrow> jsnum \<Rightarrow> AudioService \<Rightarrow> AudioService" where
  "beginPlayback onStep now s =
    s\<lparr>stepCallback := onStep, isPlaying := True, currentStep := 0,
      nextNoteTime := js_add now (Fin (5 / 100))\<rparr>"

definition startPlay :: "nat option \<Rightarrow> nat \<Rightarrow> jsnum \<Rightarrow> AudioService \<Rightarrow> AudioService option" where
  "startPlay onStep fuel now s = scheduler fuel now (beginPlayback onStep now s)"

definition startCheck :: "nat option \<Rightarrow> nat \<Rightarrow> jsnum \<Rightarrow> AudioService \<Rightarrow> AudioService option" where
  "startCheck onStep fuel now s =
    (if isPlaying s then Some s
     else if ctx s = Some Suspended then Some (suspend (AfterResume onStep) s)
     else startPlay onStep fuel now s)"

definition start ::
  "nat option \<Rightarrow> AudioContextState \<Rightarrow> nat \<Rightarrow> jsnum \<Rightarrow> AudioService \<Rightarrow> AudioService option" where
  "start onStep c0 fuel now s =
    (if ctx s = None then Some (suspend (AfterInitialize onStep) (initialize c0 s))
     else startCheck onStep fuel now s)"

definition continueStart :: "nat \<Rightarrow> nat \<Rightarrow> jsnum \<Rightarrow> AudioService \<Rightarrow> AudioService option" where
  "continueStart k fuel now s =
    (if k < length (awaiting s) then
       (let s' = s\<lparr>awaiting := take k (awaiting s) @ drop (Suc k) (awaiting s)\<rparr>
        in case awaiting s ! k of
             AfterInitialize onStep \<Rightarrow> startCheck onStep fuel now s'
           | AfterResume onStep \<Rightarrow> startPlay onStep fuel now (s'\<lparr>ctx := Some Running\<rparr>))
     else Some s)"




subsection \<open>Events\<close>

text \<open>
  What can happen to the engine: a call of its public interface, a suspended call of
  \<open>start\<close> going on, a pending timer firing, or an oscillator ending. A timer that fires
  leaves the queue and runs its task.
\<close>

datatype event =
  Start "nat option" AudioContextState
| Continue nat
| Stop
| SetState OrpheusState
| Initialize AudioContextState
| TimerFires nat
| OscEnded nat

definition fireTimer :: "nat \<Rightarrow> nat \<Rightarrow> jsnum \<Rightarrow> AudioService \<Rightarrow> AudioService option" where
  "fireTimer i fuel now s =
    (case find (\<lambda>t. timer_id t = i) (timers s) of
       None \<Rightarrow> Some s
     | Some t \<Rightarrow>
         (let s' = clearTimeout i s
          in case timer_task t of
               Tick \<Rightarrow> scheduler fuel now s'
             | StepNotify n \<Rightarrow> Some (notifyStep n s')))"

fun apply_event :: "nat \<Rightarrow> jsnum \<Rightarrow> event \<Rightarrow> AudioService \<Rightarrow> AudioService option" where
  "apply_event fuel now (Start onStep c0) s = start onStep c0 fuel now s"
| "apply_event fuel now (Continue k) s = continueStart k fuel now s"
| "apply_event fuel now Stop s = Some (stop s)"
| "apply_event fuel now (SetState st) s = Some (setState st s)"
| "apply_event fuel now (Initialize c0) s = Some (initialize c0 s)"
| "apply_event fuel now (TimerFires i) s = fireTimer i fuel now s"
| "apply_event fuel now (OscEnded oid) s = Some (onended oid s)"

text \<open>A run: events with the audio-clock time at which each happens and the fuel it gets.\<close>

fun run :: "(nat \<times> jsnum \<times> event) list \<Rightarrow> AudioService \<Rightarrow> AudioService option" where
  "run [] s = Some s"
| "run ((fuel, now, e) # es) s =
    (case apply_event fuel now e s of None \<Rightarrow> None | Some s' \<Rightarrow> run es s')"

definition reachable :: "AudioService \<Rightarrow> bool" where
  "reachable s = (\<exists>es. run es new_AudioService = Some s)"

section \<open>Observations and invariants\<close>

text \<open>
  The timer that \<open>scheduleNote\<close> queues for the step notification, and the condition under
  which it does.
\<close>

definition notifyTimer :: "nat \<Rightarrow> jsnum \<Rightarrow> jsnum \<Rightarrow> AudioService \<Rightarrow> timer" where
  "notifyTimer stepNumber time now s =
    \<lparr>timer_id = Suc (timerSeq s),
     timer_delay = js_max (Fin 0) (js_mul (js_sub time now) (Fin 1000)),
     timer_task = StepNotify stepNumber\<rparr>"

definition notifies :: "AudioService \<Rightarrow> bool" where
  "notifies s = (ctx s \<noteq> None \<and> schumannGainNode s \<noteq> None \<and> stepCallback s \<noteq> None)"

text \<open>The pending ticks of the scheduler.\<close>

definition tickTimers :: "AudioService \<Rightarrow> timer list" where
  "tickTimers s = filter (\<lambda>t. timer_task t = Tick) (timers s)"

text \<open>Timer identifiers are positive, distinct and at most \<open>timerSeq\<close>.\<close>

definition timers_ok :: "AudioService \<Rightarrow> bool" where
  "timers_ok s =
    ((\<forall>t \<in> set (timers s). 0 < timer_id t \<and> timer_id t \<le> timerSeq s)
     \<and> distinct (map timer_id (timers s)))"

text \<open>
  The invariant of the engine: the cursor is below 16, a playing engine has its audio
  context, the context comes with its bus, and a call of \<open>start\<close> is suspended only once
  the context exists.
\<close>

definition engine_inv :: "AudioService \<Rightarrow> bool" where
  "engine_inv s =
    (currentStep s < NUM_STEPS
     \<and> (isPlaying s \<longrightarrow> ctx s \<noteq> None)
     \<and> (ctx s \<noteq> None \<longrightarrow> schumannGainNode s \<noteq> None)
     \<and> (awaiting s \<noteq> [] \<longrightarrow> ctx s \<noteq> None)
     \<and> timers_ok s)"

text \<open>
  The voices that the loop over the layers creates, from oscillator number \<open>k\<close> on: one for
  each layer that passes the two guards of the loop body.
\<close>

fun layerVoices ::
  "StepSettings \<Rightarrow> nat \<Rightarrow> jsnum \<Rightarrow> jsnum \<Rightarrow> nat \<Rightarrow> HarmonicLayer list \<Rightarrow> voice list" where
  "layerVoices step i t d k [] = []"
| "layerVoices step i t d k (l # ls) =
    (if \<not> js_le (gain l) (Fin 0) \<and> \<not> js_le (peakGainOf step l i) (Fin (1 / 1000))
     then makeVoice step l i t d k # layerVoices step i t d (Suc k) ls
     else layerVoices step i t d k ls)"

section \<open>Example engines\<close>

text \<open>
  The engine after \<open>start\<close> at time 0 with callback 7 on a platform whose new context is
  running, and after the suspended call has gone on: step 0 is scheduled with its three
  voices, the notification and the next tick are pending. The same engine stopped.
\<close>

definition playing :: AudioService where
  "playing =
    the (run [(2, Fin 0, Start (Some 7) Running), (2, Fin 0, Continue 0)] new_AudioService)"


text \<open>
  Two calls of \<open>start\<close> on a platform whose new context is suspended: the second call is
  made while the first is suspended at \<^verbatim>\<open>await this.ctx.resume()\<close>. The engine when the
  first call has gone on to its end and the second is still suspended; the engine when
  the second has gone on too; that engine after \<open>stop\<close> and the firing, at time 0.2, of
  timer 2. And the engine after a call of \<open>start\<close>, a call of \<open>stop\<close> while that call is
  suspended, and the rest of the call.
\<close>

definition oneOfTwoStarts :: "(nat \<times> jsnum \<times> event) list" where
  "oneOfTwoStarts =
    [(2, Fin 0, Start (Some 7) Suspended), (2, Fin 0, Continue 0),
     (2, Fin 0, Start (Some 7) Suspended), (2, Fin 0, Continue 0)]"

definition twoStarts :: "(nat \<times> jsnum \<times> event) list" where
  "twoStarts = oneOfTwoStarts @ [(2, Fin 0, Continue 0)]"

definition secondPending :: AudioService where
  "secondPending = the (run oneOfTwoStarts new_AudioService)"

definition startedTwice :: AudioService where
  "startedTwice = the (run twoStarts new_AudioService)"

definition staleTick :: AudioService where
  "staleTick = the (run [(2, Fin (1 / 5), TimerFires 2)] (stop startedTwice))"

definition startStop :: "(nat \<times> jsnum \<times> event) list" where
  "startStop =
    [(2, Fin 0, Start (Some 7) Suspended), (2, Fin 0, Continue 0), (2, Fin 0, Stop),
     (2, Fin 0, Continue 0)]"

definition startedAfterStop :: AudioService where
  "startedAfterStop = the (run startStop new_AudioService)"

text \<open>A fractal layer with a given pattern.\<close>

definition gatedLayer :: "jsnum list option \<Rightarrow> HarmonicLayer" where
  "gatedLayer p =
    \<lparr>layer_id = ''fifth'', label = ''H1 Fifth'', ratio = Fin (3 / 2), waveform = Square,
     gain = Fin (6 / 10), gatingMode = Fractal, fractalPattern = p\<rparr>"

text \<open>
  Scenes: one layer whose gain is NaN (the value an emptied number field of the layer
  editor yields), the first step only, all steps disabled; and a step whose phase
  offset for the root layer is given.
\<close>

definition nanGainScene :: "GatingMode \<Rightarrow> OrpheusState" where
  "nanGainScene mode =
    getInitialState\<lparr>harmonicLayers :=
      [\<lparr>layer_id = ''fifth'', label = ''H1 Fifth'', ratio = Fin (3 / 2), waveform = Square,
        gain = NaN, gatingMode = mode,
        fractalPattern = Some [Fin 1, Fin (1 / 2), Fin (1 / 4), Fin (1 / 8)]\<rparr>]\<rparr>"

definition shortScene :: OrpheusState where
  "shortScene = getInitialState\<lparr>steps := take 1 (steps getInitialState)\<rparr>"

definition mutedScene :: OrpheusState where
  "mutedScene = getInitialState\<lparr>steps := map (\<lambda>st. st\<lparr>enabled := False\<rparr>) (steps getInitialState)\<rparr>"

definition shiftedStep :: "jsnum \<Rightarrow> StepSettings" where
  "shiftedStep f = (initialStep 0)\<lparr>phaseOffsets := [''root'' \<mapsto> f]\<rparr>"

section \<open>What the trigger leaves alone\<close>

text \<open>
  A voice only adds to \<open>voices\<close> and \<open>activeOscillators\<close>; \<open>scheduleNote\<close> also queues the
  notification timer and records its call.
\<close>

lemma triggerLayer_fields:
  "ctx (triggerLayer step i t d s l) = ctx s"
  "schumannGainNode (triggerLayer step i t d s l) = schumannGainNode s"
  "masterGainNode (triggerLayer step i t d s l) = masterGainNode s"
  "isPlaying (triggerLayer step i t d s l) = isPlaying s"
  "stepCallback (triggerLayer step i t d s l) = stepCallback s"
  "nextNoteTime (triggerLayer step i t d s l) = nextNoteTime s"
  "currentStep (triggerLayer step i t d s l) = currentStep s"
  "timerID (triggerLayer step i t d s l) = timerID s"
  "state (triggerLayer step i t d s l) = state s"
  "timers (triggerLayer step i t d s l) = timers s"
  "timerSeq (triggerLayer step i t d s l) = timerSeq s"
  "stoppedOscs (triggerLayer step i t d s l) = stoppedOscs s"
  "cbCalls (triggerLayer step i t d s l) = cbCalls s"
  "noteCalls (triggerLayer step i t d s l) = noteCalls s"
  "awaiting (triggerLayer step i t d s l) = awaiting s"
  by (simp_all add: triggerLayer_def Let_def)

lemma foldl_triggerLayer_fields:
  "ctx (foldl (triggerLayer step i t d) s ls) = ctx s"
  "schumannGainNode (foldl (triggerLayer step i t d) s ls) = schumannGainNode s"
  "masterGainNode (foldl (triggerLayer step i t d) s ls) = masterGainNode s"
  "isPlaying (foldl (triggerLayer step i t d) s ls) = isPlaying s"
  "stepCallback (foldl (triggerLayer step i t d) s ls) = stepCallback s"
  "nextNoteTime (foldl (triggerLayer step i t d) s ls) = nextNoteTime s"
  "currentStep (foldl (triggerLayer step i t d) s ls) = currentStep s"
  "timerID (foldl (triggerLayer step i t d) s ls) = timerID s"
  "state (foldl (triggerLayer step i t d) s ls) = state s"
  "timers (foldl (triggerLayer step i t d) s ls) = timers s"
  "timerSeq (foldl (triggerLayer step i t d) s ls) = timerSeq s"
  "stoppedOscs (foldl (triggerLayer step i t d) s ls) = stoppedOscs s"
  "cbCalls (foldl (triggerLayer step i t d) s ls) = cbCalls s"
  "noteCalls (foldl (triggerLayer step i t d) s ls) = noteCalls s"
  "awaiting (foldl (triggerLayer step i t d) s ls) = awaiting s"
  by (induction ls arbitrary: s; simp add: triggerLayer_fields)+

lemma scheduleNote_fields:
  "ctx (scheduleNote i t now s) = ctx s"
  "schumannGainNode (scheduleNote i t now s) = schumannGainNode s"
  "masterGainNode (scheduleNote i t now s) = masterGainNode s"
  "isPlaying (scheduleNote i t now s) = isPlaying s"
  "stepCallback (scheduleNote i t now s) = stepCallback s"
  "nextNoteTime (scheduleNote i t now s) = nextNoteTime s"
  "currentStep (scheduleNote i t now s) = currentStep s"
  "timerID (scheduleNote i t now s) = timerID s"
  "state (scheduleNote i t now s) = state s"
  "stoppedOscs (scheduleNote i t now s) = stoppedOscs s"
  "cbCalls (scheduleNote i t now s) = cbCalls s"
  "noteCalls (scheduleNote i t now s) = noteCalls s @ [(i, t)]"
  "awaiting (scheduleNote i t now s) = awaiting s"
  by (simp_all add: scheduleNote_def queueNotify_def Let_def setTimeout_def
      foldl_triggerLayer_fields split: option.splits)

lemma stepDurationSec_pos:
  "tempo st = Fin T \<Longrightarrow> 0 < T \<Longrightarrow> stepDurationSec st = Fin ((60 / T) / 4)"
  by (simp add: stepDurationSec_def)

section \<open>The invariant holds in every reachable state\<close>

text \<open>
  Each operation keeps the invariant, whatever the order in which calls, suspended calls,
  timers and oscillators take their turn.
\<close>

lemma scheduleNote_timers:
  "timers (scheduleNote i t now s) =
     timers s @ (if notifies s then [notifyTimer i t now s] else [])"
  "timerSeq (scheduleNote i t now s) = (if notifies s then Suc (timerSeq s) else timerSeq s)"
  by (auto simp add: scheduleNote_def queueNotify_def Let_def setTimeout_def
      foldl_triggerLayer_fields notifies_def notifyTimer_def split: option.splits)

lemma scheduleNote_tickTimers:
  "tickTimers (scheduleNote i t now s) = tickTimers s"
  by (simp add: tickTimers_def scheduleNote_timers notifyTimer_def)

lemma scheduleNote_timers_ok:
  assumes ok: "timers_ok s"
  shows "timers_ok (scheduleNote i t now s)"
  using ok unfolding timers_ok_def
  by (auto simp add: scheduleNote_timers notifyTimer_def)

lemma advance_fields:
  "timers (advanceStep s) = timers s" "timers (advanceTime d s) = timers s"
  "timerSeq (advanceStep s) = timerSeq s" "timerSeq (advanceTime d s) = timerSeq s"
  "timerID (advanceStep s) = timerID s" "timerID (advanceTime d s) = timerID s"
  "isPlaying (advanceStep s) = isPlaying s" "isPlaying (advanceTime d s) = isPlaying s"
  "ctx (advanceStep s) = ctx s" "ctx (advanceTime d s) = ctx s"
  "schumannGainNode (advanceStep s) = schumannGainNode s"
  "schumannGainNode (advanceTime d s) = schumannGainNode s"
  "stepCallback (advanceStep s) = stepCallback s"
  "stepCallback (advanceTime d s) = stepCallback s"
  "state (advanceStep s) = state s" "state (advanceTime d s) = state s"
  "activeOscillators (advanceStep s) = activeOscillators s"
  "activeOscillators (advanceTime d s) = activeOscillators s"
  "noteCalls (advanceStep s) = noteCalls s" "noteCalls (advanceTime d s) = noteCalls s"
  "awaiting (advanceStep s) = awaiting s" "awaiting (advanceTime d s) = awaiting s"
  "voices (advanceStep s) = voices s" "voices (advanceTime d s) = voices s"
  "nextNoteTime (advanceStep s) = nextNoteTime s"
  "currentStep (advanceTime d s) = currentStep s"
  "nextNoteTime (advanceTime d s) = js_add (nextNoteTime s) d"
  "currentStep (advanceStep s) = (if currentStep s + 1 = NUM_STEPS then 0 else currentStep s + 1)"
  by (simp_all add: advanceStep_def advanceTime_def Let_def)

lemma loopBody_fields:
  "timerID (loopBody now d s) = timerID s"
  "isPlaying (loopBody now d s) = isPlaying s"
  "ctx (loopBody now d s) = ctx s"
  "schumannGainNode (loopBody now d s) = schumannGainNode s"
  "stepCallback (loopBody now d s) = stepCallback s"
  "state (loopBody now d s) = state s"
  "awaiting (loopBody now d s) = awaiting s"
  "nextNoteTime (loopBody now d s) = js_add (nextNoteTime s) d"
  "currentStep (loopBody now d s) = (if currentStep s + 1 = NUM_STEPS then 0 else currentStep s + 1)"
  "noteCalls (loopBody now d s) = noteCalls s @ [(currentStep s, nextNoteTime s)]"
  by (simp_all add: loopBody_def advance_fields scheduleNote_fields)

lemma tickTimers_advance:
  "tickTimers (advanceStep s) = tickTimers s" "tickTimers (advanceTime d s) = tickTimers s"
  by (simp_all add: tickTimers_def advance_fields)

lemma timers_ok_cong:
  "timers s' = timers s \<Longrightarrow> timerSeq s' = timerSeq s \<Longrightarrow> timers_ok s' = timers_ok s"
  by (simp add: timers_ok_def)

lemma loopBody_tickTimers: "tickTimers (loopBody now d s) = tickTimers s"
  by (simp add: loopBody_def tickTimers_advance scheduleNote_tickTimers)

lemma loopBody_timers_ok: "timers_ok s \<Longrightarrow> timers_ok (loopBody now d s)"
  unfolding loopBody_def
  by (simp add: timers_ok_cong [of "advanceStep _"] timers_ok_cong [of "advanceTime _ _"]
      advance_fields scheduleNote_timers_ok)

lemma loopBody_inv:
  assumes "engine_inv s"
  shows "engine_inv (loopBody now d s)"
  using assms
  by (simp add: engine_inv_def loopBody_fields loopBody_timers_ok NUM_STEPS_def)

lemma drain_inv:
  "drain fuel now d s = Some s' \<Longrightarrow> engine_inv s \<Longrightarrow> engine_inv s'"
proof (induction fuel arbitrary: s)
  case 0
  then show ?case by simp
next
  case (Suc n)
  show ?case
  proof (cases "js_lt (nextNoteTime s) (js_add now scheduleAheadTime)")
    case True
    with Suc.prems(1) have "drain n now d (loopBody now d s) = Some s'" by simp
    moreover have "engine_inv (loopBody now d s)"
      using Suc.prems(2) by (rule loopBody_inv)
    ultimately show ?thesis by (rule Suc.IH)
  next
    case False
    with Suc.prems show ?thesis by simp
  qed
qed

lemma rearm_timers_ok:
  assumes "timers_ok s"
  shows "timers_ok (rearm s)"
  using assms
  by (auto simp add: rearm_def setTimeout_def timers_ok_def)

lemma rearm_fields:
  "currentStep (rearm s) = currentStep s" "isPlaying (rearm s) = isPlaying s"
  "ctx (rearm s) = ctx s" "schumannGainNode (rearm s) = schumannGainNode s"
  "activeOscillators (rearm s) = activeOscillators s" "state (rearm s) = state s"
  "nextNoteTime (rearm s) = nextNoteTime s" "noteCalls (rearm s) = noteCalls s"
  "stepCallback (rearm s) = stepCallback s" "voices (rearm s) = voices s"
  "cbCalls (rearm s) = cbCalls s" "stoppedOscs (rearm s) = stoppedOscs s"
  "awaiting (rearm s) = awaiting s"
  by (simp_all add: rearm_def setTimeout_def)

lemma rearm_inv:
  assumes "engine_inv s"
  shows "engine_inv (rearm s)"
  using assms by (simp add: engine_inv_def rearm_fields rearm_timers_ok)

lemma scheduler_inv:
  assumes "scheduler fuel now s = Some s'" and "engine_inv s"
  shows "engine_inv s'"
proof (cases "ctx s = None")
  case True
  with assms show ?thesis by (simp add: scheduler_def)
next
  case False
  with assms(1) obtain s1 where d: "drain fuel now (stepDurationSec (state s)) s = Some s1"
    and r: "s' = rearm s1"
    by (auto simp add: scheduler_def)
  from drain_inv [OF d assms(2)] have "engine_inv s1" .
  then show ?thesis unfolding r by (rule rearm_inv)
qed

lemma engine_inv_cong:
  assumes "currentStep s' = currentStep s" and "isPlaying s' = isPlaying s"
    and "(ctx s' = None) = (ctx s = None)"
    and "(schumannGainNode s' = None) = (schumannGainNode s = None)"
    and "awaiting s' = awaiting s" and "timers s' = timers s" and "timerSeq s' = timerSeq s"
  shows "engine_inv s' = engine_inv s"
  using assms timers_ok_cong [of s' s] by (simp add: engine_inv_def)

lemma applyGlobalSettings_inv: "engine_inv s \<Longrightarrow> engine_inv (applyGlobalSettings s)"
  using engine_inv_cong [of "applyGlobalSettings s" s]
  by (simp add: applyGlobalSettings_def)

lemma initialize_inv: "engine_inv s \<Longrightarrow> engine_inv (initialize c0 s)"
proof -
  assume i: "engine_inv s"
  have "timers_ok (s\<lparr>ctx := Some c0, masterGainNode := Some (masterGain (state s)),
               schumannGainNode := Some (Fin 1)\<rparr>) = timers_ok s"
    by (rule timers_ok_cong) simp_all
  with i have "engine_inv (s\<lparr>ctx := Some c0, masterGainNode := Some (masterGain (state s)),
               schumannGainNode := Some (Fin 1)\<rparr>)"
    by (simp add: engine_inv_def)
  with i show ?thesis
    by (simp add: initialize_def applyGlobalSettings_inv)
qed

lemma initialize_ctx: "ctx (initialize c0 s) \<noteq> None"
  by (simp add: initialize_def applyGlobalSettings_def)

lemma setState_inv: "engine_inv s \<Longrightarrow> engine_inv (setState st s)"
proof -
  assume i: "engine_inv s"
  have "engine_inv (s\<lparr>state := st\<rparr>) = engine_inv s"
    by (rule engine_inv_cong) simp_all
  with i show ?thesis
    by (simp add: setState_def applyGlobalSettings_inv)
qed

lemma onended_inv: "engine_inv s \<Longrightarrow> engine_inv (onended oid s)"
  using engine_inv_cong [of "onended oid s" s] by (simp add: onended_def)

lemma notifyStep_inv: "engine_inv s \<Longrightarrow> engine_inv (notifyStep n s)"
  using engine_inv_cong [of "notifyStep n s" s]
  by (simp add: notifyStep_def split: option.splits)

lemma clearTimeout_timers_ok: "timers_ok s \<Longrightarrow> timers_ok (clearTimeout i s)"
  by (auto simp add: clearTimeout_def timers_ok_def distinct_map_filter)

lemma clearTimeout_inv: "engine_inv s \<Longrightarrow> engine_inv (clearTimeout i s)"
  using clearTimeout_timers_ok [of s i]
  by (simp add: engine_inv_def) (simp add: clearTimeout_def)

lemma stop_fields:
  "isPlaying (stop s) = False" "activeOscillators (stop s) = {}"
  "stoppedOscs (stop s) = stoppedOscs s \<union> activeOscillators s"
  "currentStep (stop s) = currentStep s" "ctx (stop s) = ctx s"
  "schumannGainNode (stop s) = schumannGainNode s" "timerID (stop s) = timerID s"
  "nextNoteTime (stop s) = nextNoteTime s" "state (stop s) = state s"
  "voices (stop s) = voices s" "timerSeq (stop s) = timerSeq s"
  "stepCallback (stop s) = stepCallback s" "cbCalls (stop s) = cbCalls s"
  "noteCalls (stop s) = noteCalls s" "awaiting (stop s) = awaiting s"
  by (simp_all add: stop_def stopAllVoices_def clearTimeout_def Let_def split: option.splits)

lemma stop_timers_ok: "timers_ok s \<Longrightarrow> timers_ok (stop s)"
  by (auto simp add: stop_def stopAllVoices_def clearTimeout_def timers_ok_def
      distinct_map_filter Let_def split: option.splits)

lemma stop_inv: "engine_inv s \<Longrightarrow> engine_inv (stop s)"
  using stop_timers_ok [of s] by (simp add: engine_inv_def stop_fields)

lemma suspend_inv: "engine_inv s \<Longrightarrow> ctx s \<noteq> None \<Longrightarrow> engine_inv (suspend c s)"
  using timers_ok_cong [of "suspend c s" s]
  by (simp add: engine_inv_def) (simp add: suspend_def)


lemma beginPlayback_inv:
  assumes "engine_inv s" and "ctx s \<noteq> None"
  shows "engine_inv (beginPlayback onStep now s)"
  using assms timers_ok_cong [of "beginPlayback onStep now s" s]
  by (simp add: engine_inv_def NUM_STEPS_def) (simp add: beginPlayback_def)

lemma startPlay_inv:
  assumes "startPlay onStep fuel now s = Some s'" and "engine_inv s" and "ctx s \<noteq> None"
  shows "engine_inv s'"
  using assms(1) beginPlayback_inv [OF assms(2,3)]
  unfolding startPlay_def by (rule scheduler_inv)

lemma startCheck_inv:
  assumes "startCheck onStep fuel now s = Some s'" and "engine_inv s" and "ctx s \<noteq> None"
  shows "engine_inv s'"
proof (cases "isPlaying s")
  case True
  with assms(1,2) show ?thesis by (simp add: startCheck_def)
next
  case False
  show ?thesis
  proof (cases "ctx s = Some Suspended")
    case True
    with False assms(1) have "s' = suspend (AfterResume onStep) s"
      by (simp add: startCheck_def)
    with assms(2,3) show ?thesis by (simp add: suspend_inv)
  next
    case nosusp: False
    with False assms(1) have "startPlay onStep fuel now s = Some s'"
      by (simp add: startCheck_def)
    then show ?thesis using assms(2,3) by (rule startPlay_inv)
  qed
qed

lemma start_inv:
  assumes "start onStep c0 fuel now s = Some s'" and "engine_inv s"
  shows "engine_inv s'"
proof (cases "ctx s = None")
  case True
  with assms(1) have "s' = suspend (AfterInitialize onStep) (initialize c0 s)"
    by (simp add: start_def)
  with assms(2) show ?thesis
    by (simp add: suspend_inv initialize_inv initialize_ctx)
next
  case False
  with assms(1) have "startCheck onStep fuel now s = Some s'"
    by (simp add: start_def)
  then show ?thesis using assms(2) False by (rule startCheck_inv)
qed

lemma continueStart_inv:
  assumes "continueStart k fuel now s = Some s'" and "engine_inv s"
  shows "engine_inv s'"
proof (cases "k < length (awaiting s)")
  case False
  with assms show ?thesis by (simp add: continueStart_def)
next
  case True
  then have ne: "awaiting s \<noteq> []" by auto
  with assms(2) have c: "ctx s \<noteq> None" and g: "schumannGainNode s \<noteq> None"
    by (simp_all add: engine_inv_def)
  let ?s1 = "s\<lparr>awaiting := take k (awaiting s) @ drop (Suc k) (awaiting s)\<rparr>"
  have t1: "timers_ok ?s1 = timers_ok s" by (rule timers_ok_cong) simp_all
  have i1: "engine_inv ?s1"
    using assms(2) c t1 by (simp add: engine_inv_def)
  have c1: "ctx ?s1 \<noteq> None" using c by simp
  show ?thesis
  proof (cases "awaiting s ! k")
    case (AfterInitialize onStep)
    with True assms(1) have "startCheck onStep fuel now ?s1 = Some s'"
      by (simp add: continueStart_def Let_def)
    then show ?thesis using i1 c1 by (rule startCheck_inv)
  next
    case (AfterResume onStep)
    let ?s2 = "?s1\<lparr>ctx := Some Running\<rparr>"
    have t2: "timers_ok ?s2 = timers_ok s" by (rule timers_ok_cong) simp_all
    have i2: "engine_inv ?s2"
      using assms(2) g t2 by (simp add: engine_inv_def)
    have c2: "ctx ?s2 \<noteq> None" by simp
    from AfterResume True assms(1) have "startPlay onStep fuel now ?s2 = Some s'"
      by (simp add: continueStart_def Let_def)
    then show ?thesis using i2 c2 by (rule startPlay_inv)
  qed
qed

lemma fireTimer_inv:
  assumes "fireTimer i fuel now s = Some s'" and "engine_inv s"
  shows "engine_inv s'"
proof (cases "find (\<lambda>t. timer_id t = i) (timers s)")
  case None
  with assms show ?thesis by (simp add: fireTimer_def)
next
  case (Some t)
  have ic: "engine_inv (clearTimeout i s)"
    using assms(2) by (rule clearTimeout_inv)
  show ?thesis
  proof (cases "timer_task t")
    case Tick
    from assms(1) Some Tick have "scheduler fuel now (clearTimeout i s) = Some s'"
      by (simp add: fireTimer_def Let_def)
    then show ?thesis using ic by (rule scheduler_inv)
  next
    case (StepNotify n)
    with assms(1) Some have "s' = notifyStep n (clearTimeout i s)"
      by (simp add: fireTimer_def Let_def)
    with ic show ?thesis by (simp add: notifyStep_inv)
  qed
qed

lemma apply_event_inv:
  "apply_event fuel now e s = Some s' \<Longrightarrow> engine_inv s \<Longrightarrow> engine_inv s'"
  by (cases e)
    (auto simp add: start_inv continueStart_inv stop_inv setState_inv initialize_inv
      fireTimer_inv onended_inv)

lemma run_inv: "run es s = Some s' \<Longrightarrow> engine_inv s \<Longrightarrow> engine_inv s'"
proof (induction es arbitrary: s)
  case Nil
  then show ?case by simp
next
  case (Cons a es)
  obtain fuel now e where a: "a = (fuel, now, e)" by (cases a)
  from Cons.prems(1) obtain s1 where e: "apply_event fuel now e s = Some s1"
    and r: "run es s1 = Some s'"
    by (auto simp add: a split: option.splits)
  from apply_event_inv [OF e Cons.prems(2)] have "engine_inv s1" .
  with r show ?case by (rule Cons.IH)
qed

lemma new_AudioService_inv: "engine_inv new_AudioService"
  by (simp add: engine_inv_def new_AudioService_def timers_ok_def NUM_STEPS_def)

lemma reachable_inv: "reachable s \<Longrightarrow> engine_inv s"
  unfolding reachable_def using run_inv new_AudioService_inv by blast

section \<open>The drain loop in closed form\<close>

lemma drain_more_fuel:
  "drain n now d s = Some s' \<Longrightarrow> n \<le> m \<Longrightarrow> drain m now d s = Some s'"
proof (induction n arbitrary: s m)
  case 0
  then show ?case by simp
next
  case (Suc n)
  from Suc.prems(2) obtain m' where m: "m = Suc m'" and le: "n \<le> m'"
    by (cases m) simp_all
  show ?case
  proof (cases "js_lt (nextNoteTime s) (js_add now scheduleAheadTime)")
    case True
    with Suc.prems(1) have "drain n now d (loopBody now d s) = Some s'" by simp
    from Suc.IH [OF this le] True show ?thesis by (simp add: m)
  next
    case False
    with Suc.prems(1) show ?thesis by (simp add: m)
  qed
qed








section \<open>Evaluating the example engines\<close>

lemmas engine_defs = start_def startCheck_def startPlay_def continueStart_def suspend_def
  beginPlayback_def
  initialize_def applyGlobalSettings_def scheduler_def
  stepDurationSec_def loopBody_def advanceStep_def advanceTime_def scheduleNote_def
  queueNotify_def
  setTimeout_def clearTimeout_def js_sub_def array_at_def triggerLayer_def peakGainOf_def
  makeVoice_def gating_def
  offsetSec_def phaseFrac_def attack_def rearm_def lookahead_def scheduleAheadTime_def
  NUM_STEPS_def inf_signed_def stop_def stopAllVoices_def fireTimer_def notifyStep_def
  setState_def onended_def

lemmas scene_defs = new_AudioService_def getInitialState_def initialStep_def
  initialLayers_def F_ROOT_def DIATONIC_RATIOS_def

lemma run_playing:
  "run [(2, Fin 0, Start (Some 7) Running), (2, Fin 0, Continue 0)] new_AudioService =
     Some playing"
  unfolding playing_def
  by (simp add: engine_defs scene_defs Let_def numeral_2_eq_2)

lemma playing_fields:
  "isPlaying playing" "tempo (state playing) = Fin 120" "nextNoteTime playing = Fin (7 / 40)"
  "currentStep playing = 1" "length (voices playing) = 3" "activeOscillators playing = {2, 1, 0}"
  "map timer_task (timers playing) = [StepNotify 0, Tick]"
  unfolding playing_def
  by (simp_all add: engine_defs scene_defs Let_def numeral_2_eq_2)

lemma reachableI: "run es new_AudioService = Some s \<Longrightarrow> reachable s"
  unfolding reachable_def by blast

lemma reachable_playing: "reachable playing"
  using run_playing by (rule reachableI)

lemma run_twoStarts: "run twoStarts new_AudioService = Some startedTwice"
  unfolding startedTwice_def twoStarts_def oneOfTwoStarts_def
  by (simp add: engine_defs scene_defs Let_def numeral_2_eq_2)

lemma startedTwice_fields:
  "isPlaying startedTwice" "timerID startedTwice = Some 4"
  "map (\<lambda>t. (timer_id t, timer_task t)) (timers startedTwice) =
     [(1, StepNotify 0), (2, Tick), (3, StepNotify 0), (4, Tick)]"
  "length (voices startedTwice) = 6"
  "currentStep startedTwice = 1" "nextNoteTime startedTwice = Fin (7 / 40)"
  "awaiting startedTwice = []"
  unfolding startedTwice_def twoStarts_def oneOfTwoStarts_def
  by (simp_all add: engine_defs scene_defs Let_def numeral_2_eq_2)

lemma run_oneOfTwoStarts: "run oneOfTwoStarts new_AudioService = Some secondPending"
  unfolding secondPending_def oneOfTwoStarts_def
  by (simp add: engine_defs scene_defs Let_def numeral_2_eq_2)

lemma secondPending_fields:
  "isPlaying secondPending" "awaiting secondPending = [AfterResume (Some 7)]"
  "map (\<lambda>t. (timer_id t, timer_task t)) (timers secondPending) = [(1, StepNotify 0), (2, Tick)]"
  "length (voices secondPending) = 3" "timerID secondPending = Some 2"
  unfolding secondPending_def oneOfTwoStarts_def
  by (simp_all add: engine_defs scene_defs Let_def numeral_2_eq_2)

lemma secondPending_continue: "continueStart 0 2 (Fin 0) secondPending = Some startedTwice"
  unfolding secondPending_def startedTwice_def twoStarts_def oneOfTwoStarts_def
  by (simp add: engine_defs scene_defs Let_def numeral_2_eq_2)

lemma startedTwice_active: "activeOscillators startedTwice = {5, 4, 3, 2, 1, 0}"
  unfolding startedTwice_def twoStarts_def oneOfTwoStarts_def
  by (simp add: engine_defs scene_defs Let_def numeral_2_eq_2) (simp add: eval_nat_numeral)

lemma stop_startedTwice:
  "map (\<lambda>t. (timer_id t, timer_task t)) (timers (stop startedTwice)) =
     [(1, StepNotify 0), (2, Tick), (3, StepNotify 0)]"
  "tickTimers (stop startedTwice) = [\<lparr>timer_id = 2, timer_delay = lookahead, timer_task = Tick\<rparr>]"
  unfolding startedTwice_def twoStarts_def oneOfTwoStarts_def
  by (simp_all add: engine_defs scene_defs Let_def numeral_2_eq_2 tickTimers_def)

lemma run_staleTick:
  "run [(2, Fin (1 / 5), TimerFires 2)] (stop startedTwice) = Some staleTick"
  unfolding staleTick_def startedTwice_def twoStarts_def oneOfTwoStarts_def
  by (simp add: engine_defs scene_defs Let_def numeral_2_eq_2)

lemma staleTick_fields:
  "\<not> isPlaying staleTick" "length (voices staleTick) = 9"
  "tickTimers staleTick = []"
  "currentStep staleTick = 2" "nextNoteTime staleTick = Fin (3 / 10)"
  unfolding staleTick_def startedTwice_def twoStarts_def oneOfTwoStarts_def
  by (simp_all add: engine_defs scene_defs Let_def numeral_2_eq_2 tickTimers_def)

lemma staleTick_active: "activeOscillators staleTick = {8, 7, 6}"
  unfolding staleTick_def startedTwice_def twoStarts_def oneOfTwoStarts_def
  by (simp add: engine_defs scene_defs Let_def numeral_2_eq_2) (simp add: eval_nat_numeral)

lemma run_startStop: "run startStop new_AudioService = Some startedAfterStop"
  unfolding startedAfterStop_def startStop_def
  by (simp add: engine_defs scene_defs Let_def numeral_2_eq_2)

lemma startedAfterStop_fields:
  "isPlaying startedAfterStop" "timerID startedAfterStop = Some 2"
  "map (\<lambda>t. (timer_id t, timer_task t)) (timers startedAfterStop) = [(1, StepNotify 0), (2, Tick)]"
  "activeOscillators startedAfterStop = {2, 1, 0}"
  unfolding startedAfterStop_def startStop_def
  by (simp_all add: engine_defs scene_defs Let_def numeral_2_eq_2)

lemma drain_result:
  assumes "drain fuel now d s = Some x" and "drain m now d s = Some y"
  shows "x = y"
proof (cases "fuel \<le> m")
  case True
  from drain_more_fuel [OF assms(1) True] assms(2) show ?thesis by simp
next
  case False
  then have "m \<le> fuel" by simp
  from drain_more_fuel [OF assms(2) this] assms(1) show ?thesis by simp
qed


section \<open>Reachable example engines\<close>

lemma run_append:
  "run (es @ es') s = (case run es s of None \<Rightarrow> None | Some s1 \<Rightarrow> run es' s1)"
  by (induction es arbitrary: s) (auto split: option.splits)

lemma reachable_step:
  assumes "reachable s" and "apply_event fuel now e s = Some s'"
  shows "reachable s'"
proof -
  from assms(1) obtain es where "run es new_AudioService = Some s"
    unfolding reachable_def by blast
  with assms(2) have "run (es @ [(fuel, now, e)]) new_AudioService = Some s'"
    by (simp add: run_append)
  then show ?thesis unfolding reachable_def by blast
qed

lemma reachable_stop: "reachable s \<Longrightarrow> reachable (stop s)"
  by (rule reachable_step [where e = Stop and fuel = 0 and now = "Fin 0"]) simp_all


lemma reachable_startedTwice: "reachable startedTwice"
  using run_twoStarts by (rule reachableI)

lemma reachable_secondPending: "reachable secondPending"
  using run_oneOfTwoStarts by (rule reachableI)

lemma reachable_staleTick: "reachable staleTick"
proof -
  have "reachable (stop startedTwice)"
    using reachable_startedTwice by (rule reachable_stop)
  then show ?thesis
  proof (rule reachable_step)
    show "apply_event 2 (Fin (1 / 5)) (TimerFires 2) (stop startedTwice) = Some staleTick"
      using run_staleTick by (simp split: option.splits)
  qed
qed

lemma reachable_startedAfterStop: "reachable startedAfterStop"
  using run_startStop by (rule reachableI)

section \<open>What start and stop do in every reachable state\<close>

text \<open>
  A call of \<open>start\<close> on an engine that is playing returns at once and changes nothing;
  \<open>stop\<close> empties the set of live oscillators, stops each of them, clears \<open>isPlaying\<close> and
  removes the timer that \<open>timerID\<close> names. A run of the scheduler on an engine that is not
  playing arms no tick.
\<close>

lemma start_on_playing:
  assumes "reachable s" and "isPlaying s"
  shows "start onStep c0 fuel now s = Some s"
proof -
  from assms(1) have "engine_inv s" by (rule reachable_inv)
  with assms(2) have "ctx s \<noteq> None" by (simp add: engine_inv_def)
  with assms(2) show ?thesis by (auto simp add: start_def startCheck_def)
qed

lemma stop_clears:
  "activeOscillators (stop s) = {}"
  "activeOscillators s \<subseteq> stoppedOscs (stop s)"
  "\<not> isPlaying (stop s)"
  by (simp_all add: stop_fields)

lemma stop_clears_timer:
  assumes "reachable s" and "timerID s = Some i"
  shows "find (\<lambda>t. timer_id t = i) (timers (stop s)) = None"
proof -
  from assms(1) have "engine_inv s" by (rule reachable_inv)
  then have "\<forall>t \<in> set (timers s). 0 < timer_id t"
    by (simp add: engine_inv_def timers_ok_def)
  with assms(2) show ?thesis
    by (auto simp add: stop_def stopAllVoices_def clearTimeout_def Let_def find_None_iff)
qed


lemma scheduler_not_playing:
  assumes "scheduler fuel now s = Some s'" and "\<not> isPlaying s"
  shows "tickTimers s' = tickTimers s \<and> timerID s' = timerID s \<and> \<not> isPlaying s'"
proof (cases "ctx s = None")
  case True
  with assms show ?thesis by (simp add: scheduler_def)
next
  case False
  with assms(1) obtain x where x: "drain fuel now (stepDurationSec (state s)) s = Some x"
    and s': "s' = rearm x"
    by (auto simp add: scheduler_def)
  have "tickTimers x = tickTimers s \<and> timerID x = timerID s \<and> isPlaying x = isPlaying s"
    using x
  proof (induction fuel arbitrary: s)
    case 0
    then show ?case by simp
  next
    case (Suc n)
    show ?case
    proof (cases "js_lt (nextNoteTime s) (js_add now scheduleAheadTime)")
      case True
      with Suc.prems have "drain n now (stepDurationSec (state s))
          (loopBody now (stepDurationSec (state s)) s) = Some x" by simp
      then have "drain n now (stepDurationSec (state (loopBody now (stepDurationSec (state s)) s)))
          (loopBody now (stepDurationSec (state s)) s) = Some x"
        by (simp add: loopBody_fields)
      from Suc.IH [OF this] show ?thesis
        by (simp add: loopBody_fields loopBody_tickTimers)
    next
      case False
      with Suc.prems show ?thesis by simp
    qed
  qed
  with assms(2) show ?thesis by (simp add: s' rearm_def)
qed

section \<open>The sequence of scheduled steps\<close>











section \<open>The voices of a step\<close>

text \<open>
  The loop over the layers appends the voices of \<open>layerVoices\<close>; \<open>scheduleNote\<close> creates
  none without a context, for a missing or disabled step, or for a step gain that
  \<^verbatim>\<open><= 0\<close> holds of.
\<close>

lemma triggerLayer_voices:
  "voices (triggerLayer step i t d s l) =
     voices s @ (if \<not> js_le (gain l) (Fin 0) \<and> \<not> js_le (peakGainOf step l i) (Fin (1 / 1000))
                 then [makeVoice step l i t d (length (voices s))] else [])"
  by (simp add: triggerLayer_def Let_def)

lemma triggerLayer_active:
  "activeOscillators (triggerLayer step i t d s l) =
     (if \<not> js_le (gain l) (Fin 0) \<and> \<not> js_le (peakGainOf step l i) (Fin (1 / 1000))
      then insert (length (voices s)) (activeOscillators s) else activeOscillators s)"
  by (simp add: triggerLayer_def Let_def)

lemma foldl_triggerLayer_voices:
  "voices (foldl (triggerLayer step i t d) s ls) =
     voices s @ layerVoices step i t d (length (voices s)) ls"
proof (induction ls arbitrary: s)
  case Nil
  then show ?case by simp
next
  case (Cons l ls)
  show ?case
    by (simp add: Cons.IH triggerLayer_voices)
qed

lemma queueNotify_fields:
  "voices (queueNotify i t now s) = voices s"
  "activeOscillators (queueNotify i t now s) = activeOscillators s"
  "state (queueNotify i t now s) = state s"
  by (simp_all add: queueNotify_def setTimeout_def Let_def split: option.splits)

lemma scheduleNote_voices:
  "voices (scheduleNote i t now s) =
    (if ctx s = None \<or> schumannGainNode s = None then voices s
     else case array_at (steps (state s)) i of
            None \<Rightarrow> voices s
          | Some step \<Rightarrow>
              if \<not> enabled step \<or> js_le (stepGain step) (Fin 0) then voices s
              else voices s @ layerVoices step i t (stepDurationSec (state s))
                                (length (voices s)) (harmonicLayers (state s)))"
  by (simp add: scheduleNote_def Let_def queueNotify_fields foldl_triggerLayer_voices
      split: option.splits)

lemma foldl_triggerLayer_active_silent:
  "layerVoices step i t d (length (voices s)) ls = [] \<Longrightarrow>
   activeOscillators (foldl (triggerLayer step i t d) s ls) = activeOscillators s"
proof (induction ls arbitrary: s)
  case Nil
  then show ?case by simp
next
  case (Cons l ls)
  from Cons.prems have quiet: "\<not> (\<not> js_le (gain l) (Fin 0) \<and> \<not> js_le (peakGainOf step l i) (Fin (1 / 1000)))"
    and rest: "layerVoices step i t d (length (voices s)) ls = []"
    by (auto split: if_splits)
  from quiet have same: "triggerLayer step i t d s l = s"
    by (auto simp add: triggerLayer_def)
  show ?case using Cons.IH [OF rest] by (simp add: same)
qed

lemma scheduleNote_silent:
  assumes "ctx s = None \<or> schumannGainNode s = None \<or> array_at (steps (state s)) i = None
     \<or> (\<exists>step. array_at (steps (state s)) i = Some step \<and> (\<not> enabled step \<or> js_le (stepGain step) (Fin 0)))"
  shows "voices (scheduleNote i t now s) = voices s"
    and "activeOscillators (scheduleNote i t now s) = activeOscillators s"
proof -
  show "voices (scheduleNote i t now s) = voices s"
    using assms by (auto simp add: scheduleNote_voices)
  show "activeOscillators (scheduleNote i t now s) = activeOscillators s"
    using assms
    by (auto simp add: scheduleNote_def Let_def queueNotify_fields)
qed

lemma not_le_iff_lt: "a \<noteq> NaN \<Longrightarrow> (\<not> js_le a (Fin b)) = js_lt (Fin b) a"
  by (cases a) auto

text \<open>
  For a gain and an amplitude that are numbers, the two guards of the loop body say that
  the gain is positive and the amplitude exceeds the threshold.
\<close>

lemma voice_iff_for_numbers:
  assumes "gain l \<noteq> NaN" and "peakGainOf step l i \<noteq> NaN"
  shows "(voices (triggerLayer step i t d s l) \<noteq> voices s) =
           (js_lt (Fin 0) (gain l) \<and> js_lt (Fin (1 / 1000)) (peakGainOf step l i))"
  using assms by (simp add: triggerLayer_voices not_le_iff_lt)

text \<open>A negative amplitude never becomes a voice.\<close>

lemma negative_amplitude_skipped:
  "js_lt (peakGainOf step l i) (Fin 0) \<Longrightarrow> triggerLayer step i t d s l = s"
  by (cases "peakGainOf step l i") (simp_all add: triggerLayer_def)

lemma find_append_fresh:
  "find P xs = None \<Longrightarrow> P y \<Longrightarrow> find P (xs @ [y]) = Some y"
  by (induction xs) (auto split: if_splits)

section \<open>Facts about the example engines\<close>

lemma setState_fields:
  "ctx (setState st s) = ctx s" "schumannGainNode (setState st s) = schumannGainNode s"
  "state (setState st s) = st" "voices (setState st s) = voices s"
  "stepCallback (setState st s) = stepCallback s" "timerSeq (setState st s) = timerSeq s"
  "timers (setState st s) = timers s" "cbCalls (setState st s) = cbCalls s"
  "currentStep (setState st s) = currentStep s" "nextNoteTime (setState st s) = nextNoteTime s"
  "activeOscillators (setState st s) = activeOscillators s"
  by (simp_all add: setState_def applyGlobalSettings_def)

lemma reachable_setState: "reachable s \<Longrightarrow> reachable (setState st s)"
  by (rule reachable_step [where e = "SetState st" and fuel = 0 and now = "Fin 0"]) simp_all

lemma playing_more:
  "ctx playing = Some Running" "schumannGainNode playing = Some (Fin 1)"
  "stepCallback playing = Some 7" "timerSeq playing = 2" "cbCalls playing = []"
  "awaiting playing = []"
  unfolding playing_def
  by (simp_all add: engine_defs scene_defs Let_def numeral_2_eq_2)

section \<open>The phase offset\<close>

lemma js_min_Fin: "js_min (Fin a) (Fin b) = Fin (min a b)"
  by (simp add: min_def)

lemma js_max_Fin: "js_max (Fin a) (Fin b) = Fin (max a b)"
  by (simp add: max_def)

lemma clamp_real: "max 0 (min (9 / 10) f) = min (max f 0) (9 / 10 :: real)"
  by (simp add: min_def max_def)

text \<open>The fraction of the step by which a layer's voice is delayed.\<close>

lemma offsetSec_cases:
  "phaseOffsets step (layer_id l) = None \<Longrightarrow> offsetSec step l (Fin d) = Fin (min (max 0 0) (9 / 10) * d)"
  "phaseOffsets step (layer_id l) = Some (Fin f) \<Longrightarrow>
     offsetSec step l (Fin d) = Fin (min (max f 0) (9 / 10) * d)"
  "phaseOffsets step (layer_id l) = Some PInf \<Longrightarrow> offsetSec step l (Fin d) = Fin (9 / 10 * d)"
  "phaseOffsets step (layer_id l) = Some NInf \<Longrightarrow> offsetSec step l (Fin d) = Fin 0"
  "phaseOffsets step (layer_id l) = Some NaN \<Longrightarrow> offsetSec step l (Fin d) = Fin 0"
proof -
  show "phaseOffsets step (layer_id l) = None \<Longrightarrow>
      offsetSec step l (Fin d) = Fin (min (max 0 0) (9 / 10) * d)"
    by (simp add: offsetSec_def phaseFrac_def)
  show "phaseOffsets step (layer_id l) = Some PInf \<Longrightarrow> offsetSec step l (Fin d) = Fin (9 / 10 * d)"
    by (simp add: offsetSec_def phaseFrac_def)
  show "phaseOffsets step (layer_id l) = Some NInf \<Longrightarrow> offsetSec step l (Fin d) = Fin 0"
    by (simp add: offsetSec_def phaseFrac_def)
  show "phaseOffsets step (layer_id l) = Some NaN \<Longrightarrow> offsetSec step l (Fin d) = Fin 0"
    by (simp add: offsetSec_def phaseFrac_def)
  assume f: "phaseOffsets step (layer_id l) = Some (Fin f)"
  have "phaseFrac step l = Fin f"
    using f by (cases "f = 0") (simp_all add: phaseFrac_def)
  then have "offsetSec step l (Fin d) = Fin (max 0 (min (9 / 10) f) * d)"
    by (simp only: offsetSec_def js_min_Fin js_max_Fin js_mul.simps)
  then show "offsetSec step l (Fin d) = Fin (min (max f 0) (9 / 10) * d)"
    by (simp only: clamp_real)
qed

lemma offsetSec_bounded:
  "\<exists>c. 0 \<le> c \<and> c \<le> 9 / 10 \<and> offsetSec step l (Fin d) = Fin (c * d)"
proof (cases "phaseOffsets step (layer_id l)")
  case None
  from offsetSec_cases(1) [OF this, of d] show ?thesis
    by (intro exI [of _ 0]) simp
next
  case (Some v)
  show ?thesis
  proof (cases v)
    case (Fin f)
    with Some have "phaseOffsets step (layer_id l) = Some (Fin f)" by simp
    from offsetSec_cases(2) [OF this, of d] show ?thesis
      by (intro exI [of _ "min (max f 0) (9 / 10)"]) simp
  next
    case PInf
    with Some have "phaseOffsets step (layer_id l) = Some PInf" by simp
    from offsetSec_cases(3) [OF this, of d] show ?thesis
      by (intro exI [of _ "9 / 10"]) simp
  next
    case NInf
    with Some have "phaseOffsets step (layer_id l) = Some NInf" by simp
    from offsetSec_cases(4) [OF this, of d] show ?thesis
      by (intro exI [of _ 0]) simp
  next
    case NaN
    with Some have "phaseOffsets step (layer_id l) = Some NaN" by simp
    from offsetSec_cases(5) [OF this, of d] show ?thesis
      by (intro exI [of _ 0]) simp
  qed
qed

section \<open>The step duration\<close>



section \<open>The gating multiplier\<close>

text \<open>
  Claim C2. At every step index (so at every index below 16) the gating multiplier of a
  layer is 1 when its gating mode is none; in fractal mode it is 1 when the pattern is
  missing or empty, and otherwise the pattern's entry at the index modulo the pattern's
  length, with a negative or non-finite entry replaced by 0.
\<close>

theorem gating_multiplier:
  "(gatingMode l = GatingNone \<longrightarrow> gating l i = Fin 1)
 \<and> (gatingMode l = Fractal \<longrightarrow> (fractalPattern l = None \<or> fractalPattern l = Some []) \<longrightarrow>
      gating l i = Fin 1)
 \<and> (\<forall>p. gatingMode l = Fractal \<longrightarrow> fractalPattern l = Some p \<longrightarrow> p \<noteq> [] \<longrightarrow>
      (\<forall>x. p ! (i mod length p) = Fin x \<longrightarrow> 0 \<le> x \<longrightarrow> gating l i = p ! (i mod length p))
    \<and> (\<forall>x. p ! (i mod length p) = Fin x \<longrightarrow> x < 0 \<longrightarrow> gating l i = Fin 0)
    \<and> (p ! (i mod length p) \<in> {PInf, NInf, NaN} \<longrightarrow> gating l i = Fin 0))"
  by (cases "gatingMode l") (auto simp add: gating_def Let_def)

text \<open>
  The layers of the initial scene at step 5: the root is not gated, the fifth reads entry
  \<open>5 mod 4 = 1\<close> of its pattern. A layer without a pattern, and one whose entry is NaN.
\<close>

theorem gating_multiplier_witness:
  "gating (initialLayers ! 0) 5 = Fin 1
   \<and> gating (gatedLayer (Some [Fin 1, Fin (1 / 2), Fin (1 / 4), Fin (1 / 8)])) 5 = Fin (1 / 2)
   \<and> gating (gatedLayer None) 5 = Fin 1
   \<and> gating (gatedLayer (Some [])) 5 = Fin 1
   \<and> gating (gatedLayer (Some [Fin 1, NaN])) 5 = Fin 0
   \<and> gating (gatedLayer (Some [Fin 1, Fin (- 1)])) 5 = Fin 0"
  using gating_multiplier [of "initialLayers ! 0" 5]
    gating_multiplier [of "gatedLayer (Some [Fin 1, Fin (1 / 2), Fin (1 / 4), Fin (1 / 8)])" 5]
    gating_multiplier [of "gatedLayer None" 5]
    gating_multiplier [of "gatedLayer (Some [])" 5]
    gating_multiplier [of "gatedLayer (Some [Fin 1, NaN])" 5]
    gating_multiplier [of "gatedLayer (Some [Fin 1, Fin (- 1)])" 5]
  by (simp add: initialLayers_def gatedLayer_def numeral_2_eq_2 [symmetric])

section \<open>The step cursor\<close>



section \<open>Idempotence of start and stop\<close>

text \<open>
  Claim C8. A call of \<open>start\<close> made while the engine is playing changes nothing
  (\<open>start_on_playing\<close>). But \<open>start\<close> tests \<open>isPlaying\<close> before
  \<^verbatim>\<open>await this.ctx.resume()\<close> and sets it after, so the rest of a call can run on an engine
  that another call has set playing in the meantime: in the reachable state
  \<open>secondPending\<close> the engine is playing, with one tick pending and three voices, and the
  rest of the second call resets the cursor and \<open>nextNoteTime\<close>, creates three more voices
  and arms a second tick: a second scheduling loop. \<open>stop\<close> then clears one of the two
  ticks; the other fires on the stopped engine and creates voices, and in the reachable
  state \<open>staleTick\<close> that this leaves, the engine is not playing and \<open>stop\<close> changes it: it
  stops three live oscillators.
\<close>

theorem start_stop_not_idempotent:
  "reachable secondPending \<and> isPlaying secondPending
   \<and> awaiting secondPending = [AfterResume (Some 7)]
   \<and> map (\<lambda>t. (timer_id t, timer_task t)) (timers secondPending) =
        [(1, StepNotify 0), (2, Tick)]
   \<and> length (voices secondPending) = 3
   \<and> continueStart 0 2 (Fin 0) secondPending = Some startedTwice
   \<and> map (\<lambda>t. (timer_id t, timer_task t)) (timers startedTwice) =
        [(1, StepNotify 0), (2, Tick), (3, StepNotify 0), (4, Tick)]
   \<and> length (voices startedTwice) = 6
   \<and> reachable staleTick \<and> \<not> isPlaying staleTick
   \<and> activeOscillators staleTick = {8, 7, 6}
   \<and> activeOscillators (stop staleTick) = {}
   \<and> stop staleTick \<noteq> staleTick"
proof -
  have e: "activeOscillators (stop staleTick) = {}" by (simp add: stop_fields)
  have "activeOscillators (stop staleTick) \<noteq> activeOscillators staleTick"
    unfolding e staleTick_active by simp
  then have ne: "stop staleTick \<noteq> staleTick" by (intro notI) simp
  show ?thesis
    by (intro conjI reachable_secondPending secondPending_fields(1,2,3,4)
        secondPending_continue startedTwice_fields(3,4) reachable_staleTick
        staleTick_fields(1) staleTick_active e ne)
qed

text \<open>
  The rest of the second call adds three voices to the playing engine, and \<open>stop\<close> on the
  stopped engine takes three oscillators out of the live set.
\<close>

theorem start_stop_not_idempotent_witness:
  "length (voices startedTwice) = length (voices secondPending) + 3
   \<and> activeOscillators staleTick - activeOscillators (stop staleTick) = {8, 7, 6}"
  using start_stop_not_idempotent by simp

section \<open>Stopping\<close>

text \<open>
  Claim C5. \<open>stop\<close> empties the set of live oscillators, stops each of them and clears
  \<open>isPlaying\<close> (\<open>stop_clears\<close>); it removes the timer that \<open>timerID\<close> names
  (\<open>stop_clears_timer\<close>), and the scheduler arms a tick only while \<open>isPlaying\<close> holds
  (\<open>scheduler_not_playing\<close>). But a call of \<open>start\<close> that is suspended at
  \<^verbatim>\<open>await this.ctx.resume()\<close> is not cancelled by \<open>stop\<close>: after \<open>start\<close>, \<open>stop\<close> and the rest of
  the call (\<open>startStop\<close>) the engine is playing, three oscillators are live and a tick is
  armed, with no call of \<open>start\<close> after \<open>stop\<close> returned. And after two overlapping calls of
  \<open>start\<close> there are two pending ticks, of which \<open>stop\<close> removes only the one that \<open>timerID\<close>
  names: the tick with identifier 2 is still pending when \<open>stop\<close> has returned, and when it
  fires it schedules step 1 and its three voices on the stopped engine.
\<close>

theorem stop_leaves_loop_armed:
  "run startStop new_AudioService = Some startedAfterStop
   \<and> isPlaying startedAfterStop \<and> timerID startedAfterStop = Some 2
   \<and> map (\<lambda>t. (timer_id t, timer_task t)) (timers startedAfterStop) =
        [(1, StepNotify 0), (2, Tick)]
   \<and> activeOscillators startedAfterStop = {2, 1, 0}
   \<and> reachable startedTwice \<and> timerID startedTwice = Some 4
   \<and> map (\<lambda>t. (timer_id t, timer_task t)) (timers startedTwice) =
        [(1, StepNotify 0), (2, Tick), (3, StepNotify 0), (4, Tick)]
   \<and> \<not> isPlaying (stop startedTwice) \<and> activeOscillators (stop startedTwice) = {}
   \<and> tickTimers (stop startedTwice) =
        [\<lparr>timer_id = 2, timer_delay = lookahead, timer_task = Tick\<rparr>]
   \<and> run [(2, Fin (1 / 5), TimerFires 2)] (stop startedTwice) = Some staleTick
   \<and> length (voices staleTick) = length (voices (stop startedTwice)) + 3
   \<and> activeOscillators staleTick = {8, 7, 6}"
proof -
  have v: "length (voices staleTick) = length (voices (stop startedTwice)) + 3"
    by (simp add: staleTick_fields stop_fields startedTwice_fields)
  show ?thesis
    by (intro conjI run_startStop startedAfterStop_fields reachable_startedTwice
        startedTwice_fields(2,3) stop_clears(3) stop_clears(1) stop_startedTwice(2)
        run_staleTick v staleTick_active)
qed

text \<open>After \<open>stop\<close> a tick is pending, and after \<open>start\<close>, \<open>stop\<close> the engine plays.\<close>

theorem stop_leaves_loop_armed_witness:
  "tickTimers (stop startedTwice) \<noteq> []
   \<and> (\<exists>s'. run startStop new_AudioService = Some s' \<and> isPlaying s'
          \<and> length (timers s') = 2)"
proof -
  note th = stop_leaves_loop_armed
  from th have "tickTimers (stop startedTwice) =
        [\<lparr>timer_id = 2, timer_delay = lookahead, timer_task = Tick\<rparr>]" by blast
  then have a: "tickTimers (stop startedTwice) \<noteq> []" by simp
  from th have r: "run startStop new_AudioService = Some startedAfterStop"
    and p: "isPlaying startedAfterStop" by blast+
  from th have "map (\<lambda>t. (timer_id t, timer_task t)) (timers startedAfterStop) =
        [(1, StepNotify 0), (2, Tick)]" by blast
  then have "length (map (\<lambda>t. (timer_id t, timer_task t)) (timers startedAfterStop)) = 2"
    by simp
  then have l: "length (timers startedAfterStop) = 2" by simp
  have b: "\<exists>s'. run startStop new_AudioService = Some s' \<and> isPlaying s'
          \<and> length (timers s') = 2"
    by (rule exI [of _ startedAfterStop]) (intro conjI r p l)
  from a b show ?thesis by (rule conjI)
qed

section \<open>The step notification\<close>

text \<open>
  Claim C6. In a reachable state with an audio context and a registered callback,
  \<open>scheduleNote\<close> for step \<open>i\<close> (whatever the step's settings, and whether it exists)
  queues exactly one timer: its delay is the time from \<open>now\<close> to the step's scheduled time
  in milliseconds, not below 0, and its task is the notification of step \<open>i\<close>. No call of
  the callback is made yet. When that timer fires in a state where a callback is still
  registered, the callback is called once with \<open>i\<close>, and the timer is gone.
\<close>

theorem step_callback_once:
  assumes r: "reachable s" and c: "ctx s \<noteq> None" and cb: "stepCallback s = Some cb"
  shows "timers (scheduleNote i time now s) = timers s @ [notifyTimer i time now s]
       \<and> timer_id (notifyTimer i time now s) = Suc (timerSeq s)
       \<and> timer_delay (notifyTimer i time now s) =
            js_max (Fin 0) (js_mul (js_sub time now) (Fin 1000))
       \<and> timer_task (notifyTimer i time now s) = StepNotify i
       \<and> cbCalls (scheduleNote i time now s) = cbCalls s
       \<and> find (\<lambda>t. timer_id t = Suc (timerSeq s)) (timers (scheduleNote i time now s)) =
            Some (notifyTimer i time now s)
       \<and> (\<forall>u cb' fuel now'.
             find (\<lambda>t. timer_id t = Suc (timerSeq s)) (timers u) = Some (notifyTimer i time now s)
             \<longrightarrow> stepCallback u = Some cb'
             \<longrightarrow> (\<exists>u'. fireTimer (Suc (timerSeq s)) fuel now' u = Some u'
                    \<and> cbCalls u' = cbCalls u @ [(cb', i)]
                    \<and> find (\<lambda>t. timer_id t = Suc (timerSeq s)) (timers u') = None))"
proof -
  from r have inv: "engine_inv s" by (rule reachable_inv)
  with c have g: "schumannGainNode s \<noteq> None" by (simp add: engine_inv_def)
  from c g cb have n: "notifies s" by (simp add: notifies_def)
  have tm: "timers (scheduleNote i time now s) = timers s @ [notifyTimer i time now s]"
    using n by (simp add: scheduleNote_timers)
  have f: "timer_id (notifyTimer i time now s) = Suc (timerSeq s)"
    "timer_delay (notifyTimer i time now s) =
            js_max (Fin 0) (js_mul (js_sub time now) (Fin 1000))"
    "timer_task (notifyTimer i time now s) = StepNotify i"
    by (simp_all add: notifyTimer_def)
  have calls: "cbCalls (scheduleNote i time now s) = cbCalls s"
    by (simp add: scheduleNote_fields)
  from inv have "\<forall>t \<in> set (timers s). timer_id t \<le> timerSeq s"
    by (simp add: engine_inv_def timers_ok_def)
  then have "find (\<lambda>t. timer_id t = Suc (timerSeq s)) (timers s) = None"
    by (auto simp add: find_None_iff)
  then have fnd: "find (\<lambda>t. timer_id t = Suc (timerSeq s)) (timers (scheduleNote i time now s)) =
            Some (notifyTimer i time now s)"
    unfolding tm by (rule find_append_fresh) (simp add: f(1))
  have fire: "\<forall>u cb' fuel now'.
             find (\<lambda>t. timer_id t = Suc (timerSeq s)) (timers u) = Some (notifyTimer i time now s)
             \<longrightarrow> stepCallback u = Some cb'
             \<longrightarrow> (\<exists>u'. fireTimer (Suc (timerSeq s)) fuel now' u = Some u'
                    \<and> cbCalls u' = cbCalls u @ [(cb', i)]
                    \<and> find (\<lambda>t. timer_id t = Suc (timerSeq s)) (timers u') = None)"
  proof (intro allI impI)
    fix u :: AudioService and cb' fuel now'
    assume fu: "find (\<lambda>t. timer_id t = Suc (timerSeq s)) (timers u) = Some (notifyTimer i time now s)"
      and cu: "stepCallback u = Some cb'"
    let ?u' = "notifyStep i (clearTimeout (Suc (timerSeq s)) u)"
    have 1: "fireTimer (Suc (timerSeq s)) fuel now' u = Some ?u'"
      by (simp add: fireTimer_def fu f(3) Let_def)
    have 2: "cbCalls ?u' = cbCalls u @ [(cb', i)]"
      using cu by (simp add: notifyStep_def clearTimeout_def)
    have 3: "find (\<lambda>t. timer_id t = Suc (timerSeq s)) (timers ?u') = None"
      by (simp add: notifyStep_def clearTimeout_def find_None_iff split: option.splits)
    show "\<exists>u'. fireTimer (Suc (timerSeq s)) fuel now' u = Some u'
                    \<and> cbCalls u' = cbCalls u @ [(cb', i)]
                    \<and> find (\<lambda>t. timer_id t = Suc (timerSeq s)) (timers u') = None"
      by (rule exI [of _ ?u']) (intro conjI 1 2 3)
  qed
  show ?thesis
    by (intro conjI tm f calls fnd fire)
qed

text \<open>The playing engine with every step disabled: step 3, a quarter second ahead.\<close>

theorem step_callback_once_witness:
  "reachable (setState mutedScene playing)
   \<and> ctx (setState mutedScene playing) \<noteq> None
   \<and> stepCallback (setState mutedScene playing) = Some 7
   \<and> timers (scheduleNote 3 (Fin (1 / 2)) (Fin (1 / 4)) (setState mutedScene playing)) =
       timers playing @ [\<lparr>timer_id = 3, timer_delay = Fin 250, timer_task = StepNotify 3\<rparr>]
   \<and> voices (scheduleNote 3 (Fin (1 / 2)) (Fin (1 / 4)) (setState mutedScene playing)) =
       voices playing
   \<and> (\<exists>u'. fireTimer 3 0 (Fin (1 / 2))
              (scheduleNote 3 (Fin (1 / 2)) (Fin (1 / 4)) (setState mutedScene playing)) = Some u'
          \<and> cbCalls u' = [(7, 3)])"
proof -
  let ?s = "setState mutedScene playing"
  let ?s' = "scheduleNote 3 (Fin (1 / 2)) (Fin (1 / 4)) ?s"
  have r: "reachable ?s" using reachable_playing by (rule reachable_setState)
  have c: "ctx ?s \<noteq> None" by (simp add: setState_fields playing_more)
  have cb: "stepCallback ?s = Some 7" by (simp add: setState_fields playing_more)
  note th = step_callback_once [OF r c cb, of 3 "Fin (1 / 2)" "Fin (1 / 4)"]
  have nt: "notifyTimer 3 (Fin (1 / 2)) (Fin (1 / 4)) ?s =
      \<lparr>timer_id = 3, timer_delay = Fin 250, timer_task = StepNotify 3\<rparr>"
    by (simp add: notifyTimer_def setState_fields playing_more js_sub_def)
  have sq: "Suc (timerSeq ?s) = 3" by (simp add: setState_fields playing_more)
  from th have tm: "timers ?s' = timers playing @ [\<lparr>timer_id = 3, timer_delay = Fin 250, timer_task = StepNotify 3\<rparr>]"
    unfolding nt by (simp add: setState_fields)
  from th have fnd: "find (\<lambda>t. timer_id t = 3) (timers ?s') =
      Some \<lparr>timer_id = 3, timer_delay = Fin 250, timer_task = StepNotify 3\<rparr>"
    unfolding nt sq by blast
  have cb': "stepCallback ?s' = Some 7" by (simp add: scheduleNote_fields cb)
  from th have "\<forall>u cb' fuel now'.
             find (\<lambda>t. timer_id t = 3) (timers u) =
               Some \<lparr>timer_id = 3, timer_delay = Fin 250, timer_task = StepNotify 3\<rparr>
             \<longrightarrow> stepCallback u = Some cb'
             \<longrightarrow> (\<exists>u'. fireTimer 3 fuel now' u = Some u'
                    \<and> cbCalls u' = cbCalls u @ [(cb', 3)]
                    \<and> find (\<lambda>t. timer_id t = 3) (timers u') = None)"
    unfolding nt sq by blast
  with fnd cb' obtain u' where "fireTimer 3 0 (Fin (1 / 2)) ?s' = Some u'"
    and "cbCalls u' = cbCalls ?s' @ [(7, 3)]"
    by blast
  then have fire: "\<exists>u'. fireTimer 3 0 (Fin (1 / 2)) ?s' = Some u' \<and> cbCalls u' = [(7, 3)]"
    by (simp add: scheduleNote_fields setState_fields playing_more)
  have v: "voices ?s' = voices playing"
    by (simp add: scheduleNote_voices setState_fields playing_more mutedScene_def
        getInitialState_def array_at_def NUM_STEPS_def)
  show ?thesis by (intro conjI r c cb tm v fire)
qed

section \<open>The start offset of a voice\<close>

text \<open>
  Claim C7. At a finite tempo \<open>T > 0\<close> the start offset of a layer's voice is
  \<open>min (max f 0) 0.9\<close> times the step duration, for the stored phase offset \<open>f\<close>: a number, or
  an infinity (clamped to 0.9 or 0); a missing entry counts as 0, and so does NaN. The
  offset is strictly less than the step duration, and the voice starts at the scheduled
  time plus the offset.
\<close>

theorem phase_offset_clamped:
  assumes "tempo st = Fin T" and "0 < T"
  shows "(phaseOffsets step (layer_id l) = None \<longrightarrow>
            offsetSec step l (stepDurationSec st) = Fin (min (max 0 0) (9 / 10) * ((60 / T) / 4)))
       \<and> (\<forall>f. phaseOffsets step (layer_id l) = Some (Fin f) \<longrightarrow>
            offsetSec step l (stepDurationSec st) = Fin (min (max f 0) (9 / 10) * ((60 / T) / 4)))
       \<and> (phaseOffsets step (layer_id l) = Some PInf \<longrightarrow>
            offsetSec step l (stepDurationSec st) = Fin (9 / 10 * ((60 / T) / 4)))
       \<and> (phaseOffsets step (layer_id l) = Some NInf \<longrightarrow>
            offsetSec step l (stepDurationSec st) = Fin 0)
       \<and> (phaseOffsets step (layer_id l) = Some NaN \<longrightarrow>
            offsetSec step l (stepDurationSec st) = Fin 0)
       \<and> js_lt (offsetSec step l (stepDurationSec st)) (stepDurationSec st)
       \<and> layerStartTime (makeVoice step l i time (stepDurationSec st) oid) =
            js_add time (offsetSec step l (stepDurationSec st))"
proof -
  have d: "stepDurationSec st = Fin ((60 / T) / 4)"
    using assms by (rule stepDurationSec_pos)
  have dpos: "0 < (60 / T) / 4" using assms(2) by simp
  obtain c where c: "0 \<le> c" "c \<le> 9 / 10"
    and o: "offsetSec step l (Fin ((60 / T) / 4)) = Fin (c * ((60 / T) / 4))"
    using offsetSec_bounded by blast
  from c dpos have "c * ((60 / T) / 4) < 1 * ((60 / T) / 4)"
    by (intro mult_strict_right_mono) simp_all
  then have "c * ((60 / T) / 4) < (60 / T) / 4" by (simp only: mult_1)
  then have lt: "js_lt (offsetSec step l (stepDurationSec st)) (stepDurationSec st)"
    by (simp only: d o js_lt.simps)
  have v: "layerStartTime (makeVoice step l i time (stepDurationSec st) oid) =
            js_add time (offsetSec step l (stepDurationSec st))"
    by (simp add: makeVoice_def Let_def)
  from offsetSec_cases [where step = step and l = l and d = "(60 / T) / 4"] lt v show ?thesis
    unfolding d by blast
qed

text \<open>At 120 beats per minute: half a step, and an offset of 2 clamped to 0.9.\<close>

theorem phase_offset_clamped_witness:
  "tempo getInitialState = Fin 120 \<and> (0::real) < 120
   \<and> offsetSec (shiftedStep (Fin (1 / 2))) (initialLayers ! 0) (stepDurationSec getInitialState)
        = Fin (1 / 16)
   \<and> offsetSec (shiftedStep (Fin 2)) (initialLayers ! 0) (stepDurationSec getInitialState)
        = Fin (9 / 80)
   \<and> offsetSec (shiftedStep NaN) (initialLayers ! 0) (stepDurationSec getInitialState) = Fin 0
   \<and> js_lt (offsetSec (shiftedStep (Fin 2)) (initialLayers ! 0) (stepDurationSec getInitialState))
        (stepDurationSec getInitialState)"
proof -
  have t: "tempo getInitialState = Fin 120" by (simp add: getInitialState_def)
  have p: "(0::real) < 120" by simp
  have k: "phaseOffsets (shiftedStep f) (layer_id (initialLayers ! 0)) = Some f" for f
    by (simp add: shiftedStep_def initialLayers_def)
  note a = phase_offset_clamped [OF t p, of "shiftedStep (Fin (1 / 2))" "initialLayers ! 0"]
  note b = phase_offset_clamped [OF t p, of "shiftedStep (Fin 2)" "initialLayers ! 0"]
  note c = phase_offset_clamped [OF t p, of "shiftedStep NaN" "initialLayers ! 0"]
  from a k [of "Fin (1 / 2)"]
  have 1: "offsetSec (shiftedStep (Fin (1 / 2))) (initialLayers ! 0) (stepDurationSec getInitialState)
        = Fin (min (max (1 / 2) 0) (9 / 10) * ((60 / 120) / 4))" by blast
  from b k [of "Fin 2"]
  have 2: "offsetSec (shiftedStep (Fin 2)) (initialLayers ! 0) (stepDurationSec getInitialState)
        = Fin (min (max 2 0) (9 / 10) * ((60 / 120) / 4))" by blast
  from c k [of NaN]
  have 3: "offsetSec (shiftedStep NaN) (initialLayers ! 0) (stepDurationSec getInitialState) = Fin 0"
    by blast
  from b have 4: "js_lt (offsetSec (shiftedStep (Fin 2)) (initialLayers ! 0) (stepDurationSec getInitialState))
        (stepDurationSec getInitialState)" by blast
  from 1 have e1: "offsetSec (shiftedStep (Fin (1 / 2))) (initialLayers ! 0) (stepDurationSec getInitialState)
        = Fin (1 / 16)" by simp
  from 2 have e2: "offsetSec (shiftedStep (Fin 2)) (initialLayers ! 0) (stepDurationSec getInitialState)
        = Fin (9 / 80)" by simp
  show ?thesis by (intro conjI t p e1 e2 3 4)
qed

section \<open>A step without settings\<close>

text \<open>
  Claim C10. When the steps array has no entry at index \<open>i\<close>, \<open>scheduleNote\<close> returns a
  state (the model has no failure to return: the array read yields \<open>None\<close> and the guard
  takes it) with the voices and the live oscillators unchanged; with a context and a
  callback the notification timer for \<open>i\<close> is still queued; and the iteration of the drain
  loop at such a cursor adds no voice, moves the cursor to the next step modulo 16 and
  advances \<open>nextNoteTime\<close>.
\<close>

theorem missing_step_is_safe:
  assumes r: "reachable s" and short: "length (steps (state s)) \<le> i"
  shows "voices (scheduleNote i time now s) = voices s
       \<and> activeOscillators (scheduleNote i time now s) = activeOscillators s
       \<and> (ctx s \<noteq> None \<longrightarrow> stepCallback s \<noteq> None \<longrightarrow>
             timers (scheduleNote i time now s) = timers s @ [notifyTimer i time now s]
             \<and> timer_task (notifyTimer i time now s) = StepNotify i)
       \<and> (i = currentStep s \<longrightarrow>
             voices (loopBody now d s) = voices s
             \<and> currentStep (loopBody now d s) = (currentStep s + 1) mod 16
             \<and> nextNoteTime (loopBody now d s) = js_add (nextNoteTime s) d)"
proof -
  from r have inv: "engine_inv s" by (rule reachable_inv)
  from short have a: "array_at (steps (state s)) i = None" by (simp add: array_at_def)
  then have v: "voices (scheduleNote i time now s) = voices s"
    and ao: "activeOscillators (scheduleNote i time now s) = activeOscillators s"
    by (simp_all add: scheduleNote_silent)
  have t: "ctx s \<noteq> None \<longrightarrow> stepCallback s \<noteq> None \<longrightarrow>
             timers (scheduleNote i time now s) = timers s @ [notifyTimer i time now s]
             \<and> timer_task (notifyTimer i time now s) = StepNotify i"
    using inv by (simp add: scheduleNote_timers notifies_def engine_inv_def notifyTimer_def)
  have l: "i = currentStep s \<longrightarrow>
             voices (loopBody now d s) = voices s
             \<and> currentStep (loopBody now d s) = (currentStep s + 1) mod 16
             \<and> nextNoteTime (loopBody now d s) = js_add (nextNoteTime s) d"
  proof
    assume i: "i = currentStep s"
    from a have "voices (scheduleNote (currentStep s) (nextNoteTime s) now s) = voices s"
      unfolding i by (simp add: scheduleNote_silent)
    then have 1: "voices (loopBody now d s) = voices s"
      by (simp add: loopBody_def advanceStep_def advanceTime_def Let_def)
    from inv have "currentStep s < 16" by (simp add: engine_inv_def NUM_STEPS_def)
    then have 2: "currentStep (loopBody now d s) = (currentStep s + 1) mod 16"
      by (simp add: loopBody_fields NUM_STEPS_def mod_Suc)
    have 3: "nextNoteTime (loopBody now d s) = js_add (nextNoteTime s) d"
      by (simp add: loopBody_fields)
    from 1 2 3 show "voices (loopBody now d s) = voices s
             \<and> currentStep (loopBody now d s) = (currentStep s + 1) mod 16
             \<and> nextNoteTime (loopBody now d s) = js_add (nextNoteTime s) d"
      by simp
  qed
  show ?thesis by (intro conjI v ao t l)
qed

text \<open>The playing engine with the first step only; its cursor is at step 1.\<close>

theorem missing_step_is_safe_witness:
  "reachable (setState shortScene playing)
   \<and> length (steps (state (setState shortScene playing))) \<le> 1
   \<and> currentStep (setState shortScene playing) = 1
   \<and> voices (scheduleNote 1 (Fin 1) (Fin 1) (setState shortScene playing)) = voices playing
   \<and> timers (scheduleNote 1 (Fin 1) (Fin 1) (setState shortScene playing)) =
        timers playing @ [\<lparr>timer_id = 3, timer_delay = Fin 0, timer_task = StepNotify 1\<rparr>]
   \<and> voices (loopBody (Fin 1) (Fin (1 / 8)) (setState shortScene playing)) = voices playing
   \<and> currentStep (loopBody (Fin 1) (Fin (1 / 8)) (setState shortScene playing)) = 2
   \<and> nextNoteTime (loopBody (Fin 1) (Fin (1 / 8)) (setState shortScene playing)) = Fin (3 / 10)"
proof -
  let ?s = "setState shortScene playing"
  have r: "reachable ?s" using reachable_playing by (rule reachable_setState)
  have l: "length (steps (state ?s)) \<le> 1"
    by (simp add: setState_fields shortScene_def)
  have cur: "currentStep ?s = 1"
    by (simp add: setState_fields playing_fields)
  note th = missing_step_is_safe [OF r l, of "Fin 1" "Fin 1" "Fin (1 / 8)"]
  have c: "ctx ?s \<noteq> None" "stepCallback ?s \<noteq> None"
    by (simp_all add: setState_fields playing_more)
  have nt: "notifyTimer 1 (Fin 1) (Fin 1) ?s =
      \<lparr>timer_id = 3, timer_delay = Fin 0, timer_task = StepNotify 1\<rparr>"
    by (simp add: notifyTimer_def setState_fields playing_more js_sub_def)
  from th have v: "voices (scheduleNote 1 (Fin 1) (Fin 1) ?s) = voices playing"
    by (simp add: setState_fields)
  from th c have "timers (scheduleNote 1 (Fin 1) (Fin 1) ?s) = timers ?s @ [notifyTimer 1 (Fin 1) (Fin 1) ?s]"
    by blast
  then have tm: "timers (scheduleNote 1 (Fin 1) (Fin 1) ?s) =
        timers playing @ [\<lparr>timer_id = 3, timer_delay = Fin 0, timer_task = StepNotify 1\<rparr>]"
    unfolding nt by (simp add: setState_fields)
  from th cur have lb: "voices (loopBody (Fin 1) (Fin (1 / 8)) ?s) = voices ?s
             \<and> currentStep (loopBody (Fin 1) (Fin (1 / 8)) ?s) = (currentStep ?s + 1) mod 16
             \<and> nextNoteTime (loopBody (Fin 1) (Fin (1 / 8)) ?s) = js_add (nextNoteTime ?s) (Fin (1 / 8))"
    by simp
  from lb have l1: "voices (loopBody (Fin 1) (Fin (1 / 8)) ?s) = voices playing"
    by (simp add: setState_fields)
  from lb have l2: "currentStep (loopBody (Fin 1) (Fin (1 / 8)) ?s) = 2"
    by (simp add: cur)
  from lb have l3: "nextNoteTime (loopBody (Fin 1) (Fin (1 / 8)) ?s) = Fin (3 / 10)"
    by (simp add: setState_fields playing_fields)
  show ?thesis by (intro conjI r l cur v tm l1 l2 l3)
qed

section \<open>Voices and their guards\<close>

text \<open>
  Claim C3, at a layer gain of NaN. The comparisons \<^verbatim>\<open>layer.gain <= 0\<close> and
  \<^verbatim>\<open>peakGain <= 0.001\<close> are both false for NaN, so the loop body goes on: with the step
  enabled and its gain 0.4, \<open>scheduleNote\<close> creates a voice for a layer whose gain is not
  positive and whose amplitude does not exceed 0.001.
\<close>

theorem voice_for_nan_gain:
  "gain (harmonicLayers (nanGainScene Fractal) ! 0) = NaN
   \<and> \<not> js_lt (Fin 0) (gain (harmonicLayers (nanGainScene Fractal) ! 0))
   \<and> \<not> js_lt (Fin (1 / 1000))
        (peakGainOf (steps (nanGainScene Fractal) ! 1) (harmonicLayers (nanGainScene Fractal) ! 0) 1)
   \<and> length (voices (scheduleNote 1 (Fin (7 / 40)) (Fin (1 / 10))
        (setState (nanGainScene Fractal) playing))) = Suc (length (voices playing))"
  by (simp add: scheduleNote_voices setState_fields playing_more nanGainScene_def
      getInitialState_def array_at_def NUM_STEPS_def peakGainOf_def gating_def initialStep_def
      Let_def)

text \<open>The playing engine had three voices; the layer with the NaN gain adds a fourth.\<close>

theorem voice_for_nan_gain_witness:
  "length (voices (scheduleNote 1 (Fin (7 / 40)) (Fin (1 / 10))
        (setState (nanGainScene Fractal) playing))) = 4"
  using voice_for_nan_gain playing_fields(5) by simp

text \<open>
  Claim C4, at a layer gain of NaN and gating mode none. The amplitude
  \<open>0.4 * NaN * 1\<close> is NaN; the voice is not skipped, and NaN is the peak gain written
  into its envelope.
\<close>

theorem nan_gain_reaches_graph:
  "map peakGain (voices (scheduleNote 1 (Fin (7 / 40)) (Fin (1 / 10))
        (setState (nanGainScene GatingNone) playing)))
     = map peakGain (voices playing) @ [NaN]"
  by (simp add: scheduleNote_voices setState_fields playing_more nanGainScene_def
      getInitialState_def array_at_def NUM_STEPS_def peakGainOf_def gating_def initialStep_def
      makeVoice_def Let_def)

text \<open>The gain of the newest voice of the graph is NaN.\<close>

theorem nan_gain_reaches_graph_witness:
  "last (map peakGain (voices (scheduleNote 1 (Fin (7 / 40)) (Fin (1 / 10))
        (setState (nanGainScene GatingNone) playing)))) = NaN"
  using nan_gain_reaches_graph by simp

end
